theory Spec2Isabelle
  imports Main "HOL-Library.Sublist"
begin

section \<open>Python strings\<close>

text \<open>
  A Python \<open>str\<close> is a sequence of Unicode code points, so it is modelled as a list of
  code points (natural numbers); \<open>len\<close>, \<open>find\<close> and slicing count code points.
  ASCII literals are written with \<open>ascii\<close>.
\<close>

type_synonym pystr = "nat list"

definition ascii :: "string \<Rightarrow> pystr" where
  "ascii s = map of_char s"

text \<open>The exceptions of the Python code that the model keeps as values.\<close>

datatype error = ValueError | IndexError | TypeError | AttributeError

text \<open>\<open>sub in s\<close>: \<open>sub\<close> occurs in \<open>s\<close> as a contiguous substring.\<close>

fun contains :: "'a list \<Rightarrow> 'a list \<Rightarrow> bool" where
  "contains sub [] = (sub = [])"
| "contains sub (x # xs) = (prefix sub (x # xs) \<or> contains sub xs)"

text \<open>\<open>s.find(sub)\<close>: the lowest index at which \<open>sub\<close> occurs in \<open>s\<close>, or \<open>-1\<close>.\<close>

fun str_find :: "'a list \<Rightarrow> 'a list \<Rightarrow> int" where
  "str_find sub [] = (if sub = [] then 0 else - 1)"
| "str_find sub (x # xs) =
     (if prefix sub (x # xs) then 0
      else (let r = str_find sub xs in if r < 0 then - 1 else r + 1))"

text \<open>
  \<open>s.split(sep)\<close> for a non-empty separator: the pieces between the occurrences of
  \<open>sep\<close>, found from left to right without overlap. \<open>cons_first\<close> puts a character in
  front of the first piece.
\<close>

fun cons_first :: "'a \<Rightarrow> 'a list list \<Rightarrow> 'a list list" where
  "cons_first x [] = [[x]]"
| "cons_first x (p # ps) = (x # p) # ps"

function split_pieces :: "'a list \<Rightarrow> 'a list \<Rightarrow> 'a list list" where
  "split_pieces sep [] = [[]]"
| "split_pieces sep (x # xs) =
     (if sep \<noteq> [] \<and> prefix sep (x # xs)
      then [] # split_pieces sep (drop (length sep) (x # xs))
      else cons_first x (split_pieces sep xs))"
  by pat_completeness auto
termination
  by (relation "measure (\<lambda>(sep, s). length s)") (auto simp: neq_Nil_conv)

text \<open>\<open>s.split(sep)\<close> raises \<open>ValueError\<close> (empty separator) when \<open>sep\<close> is empty.\<close>

definition str_split :: "'a list \<Rightarrow> 'a list \<Rightarrow> error + 'a list list" where
  "str_split sep s = (if sep = [] then Inl ValueError else Inr (split_pieces sep s))"

text \<open>
  \<open>s.replace(old, new)\<close>: every occurrence of \<open>old\<close>, found from left to right without
  overlap, is replaced by \<open>new\<close>; an empty \<open>old\<close> matches before every character and at
  the end.
\<close>

function replace_nonempty :: "'a list \<Rightarrow> 'a list \<Rightarrow> 'a list \<Rightarrow> 'a list" where
  "replace_nonempty old new [] = []"
| "replace_nonempty old new (x # xs) =
     (if old \<noteq> [] \<and> prefix old (x # xs)
      then new @ replace_nonempty old new (drop (length old) (x # xs))
      else x # replace_nonempty old new xs)"
  by pat_completeness auto
termination
  by (relation "measure (\<lambda>(old, new, s). length s)") (auto simp: neq_Nil_conv)

definition str_replace :: "'a list \<Rightarrow> 'a list \<Rightarrow> 'a list \<Rightarrow> 'a list" where
  "str_replace old new s =
     (if old = [] then new @ concat (map (\<lambda>c. c # new) s)
      else replace_nonempty old new s)"

text \<open>
  \<open>s.strip()\<close> removes leading and trailing whitespace; \<open>is_space\<close> is the set of code
  points for which \<open>str.isspace\<close> holds.
\<close>

definition is_space :: "nat \<Rightarrow> bool" where
  "is_space c \<longleftrightarrow>
     (9 \<le> c \<and> c \<le> 13) \<or> (28 \<le> c \<and> c \<le> 32) \<or> c = 133 \<or> c = 160 \<or> c = 5760
     \<or> (8192 \<le> c \<and> c \<le> 8202) \<or> c = 8232 \<or> c = 8233 \<or> c = 8239 \<or> c = 8287
     \<or> c = 12288"

definition strip :: "pystr \<Rightarrow> pystr" where
  "strip s = rev (dropWhile is_space (rev (dropWhile is_space s)))"

text \<open>The slices \<open>s[:i]\<close> and \<open>s[i:]\<close>; a negative index counts from the end.\<close>

definition slice_to :: "'a list \<Rightarrow> int \<Rightarrow> 'a list" where
  "slice_to s i = (if 0 \<le> i then take (nat i) s else take (length s - nat (- i)) s)"

definition slice_from :: "'a list \<Rightarrow> int \<Rightarrow> 'a list" where
  "slice_from s i = (if 0 \<le> i then drop (nat i) s else drop (length s - nat (- i)) s)"

section \<open>The hyperlinked document\<close>

text \<open>
  The XML library under \<open>python-docx\<close> refuses a text or an attribute value that is not
  XML compatible with a \<open>ValueError\<close>: a control character below U+0020 other than tab,
  line feed and carriage return, a surrogate (which cannot be encoded), U+FFFE or U+FFFF.
\<close>

definition xml_char :: "nat \<Rightarrow> bool" where
  "xml_char c \<longleftrightarrow>
     (c = 9 \<or> c = 10 \<or> c = 13 \<or> 32 \<le> c)
     \<and> \<not> (55296 \<le> c \<and> c \<le> 57343) \<and> c \<noteq> 65534 \<and> c \<noteq> 65535"

text \<open>
  A run made by \<open>add_run\<close> holds text elements, tab elements and break elements; the run
  of a hyperlink holds one text element, written as it is given. A document is the list
  of its paragraphs and a paragraph the list of its runs, in the order in which \<open>add_run\<close>
  and \<open>add_hyperlink\<close> append them. \<open>Document()\<close> starts with no paragraph.
\<close>

datatype run_item = TextElement pystr | TabElement | BreakElement

datatype run = Plain "run_item list" | Hyperlink (target: pystr) (link_text: pystr)

type_synonym docx_paragraph = "run list"

type_synonym docx_document = "docx_paragraph list"

text \<open>The text of a run as it is read back: a tab element is a tab, a break a line feed.\<close>

fun item_text :: "run_item \<Rightarrow> pystr" where
  "item_text (TextElement t) = t"
| "item_text TabElement = [9]"
| "item_text BreakElement = [10]"

fun run_text :: "run \<Rightarrow> pystr" where
  "run_text (Plain items) = concat (map item_text items)"
| "run_text (Hyperlink url t) = t"

definition paragraph_text :: "docx_paragraph \<Rightarrow> pystr" where
  "paragraph_text p = concat (map run_text p)"

text \<open>
  Setting the text of a run goes through the characters: a tab closes the pending text
  element and adds a tab element, a line feed or a carriage return closes it and adds a
  break, any other character goes to the pending text. \<open>buf\<close> is the pending text.
\<close>

definition flush :: "pystr \<Rightarrow> run_item list" where
  "flush buf = (if buf = [] then [] else [TextElement buf])"

fun append_chars :: "pystr \<Rightarrow> pystr \<Rightarrow> run_item list" where
  "append_chars buf [] = flush buf"
| "append_chars buf (c # cs) =
     (if c = 9 then flush buf @ TabElement # append_chars [] cs
      else if c = 10 \<or> c = 13 then flush buf @ BreakElement # append_chars [] cs
      else append_chars (buf @ [c]) cs)"

definition run_content :: "pystr \<Rightarrow> run_item list" where
  "run_content text = append_chars [] text"

text \<open>
  \<open>paragraph.add_run(text)\<close>: raises \<open>ValueError\<close> when a text element would hold a
  character that is not XML compatible; an empty text gives a run with no content.
\<close>

definition add_run :: "pystr \<Rightarrow> error + run" where
  "add_run text =
     (if list_all xml_char text then Inr (Plain (run_content text)) else Inl ValueError)"

text \<open>
  \<open>add_hyperlink(paragraph, url, text)\<close>: the relationship to \<open>url\<close> is only recorded
  (it is written when the document is saved); \<open>text_elem.text = text\<close> raises
  \<open>ValueError\<close> when the text is not XML compatible.
\<close>

definition add_hyperlink :: "pystr \<Rightarrow> pystr \<Rightarrow> error + run" where
  "add_hyperlink url text =
     (if list_all xml_char text then Inr (Hyperlink url text) else Inl ValueError)"

text \<open>
  The dictionary \<open>links_dict\<close> is the list of its items in insertion order.
  \<open>scan_links\<close> is the inner loop of \<open>create_hyperlinked_docx\<close> over
  \<open>links_dict.items()\<close>: it returns the runs added to the paragraph when a link was found
  (\<open>link_found = True\<close> and \<open>break\<close>), and \<open>None\<close> when the loop ends with
  \<open>link_found = False\<close>. Nothing catches an exception of \<open>split\<close>, \<open>add_run\<close> or
  \<open>add_hyperlink\<close>: it ends the function.
\<close>

fun scan_links :: "(pystr \<times> pystr) list \<Rightarrow> pystr \<Rightarrow> error + docx_paragraph option" where
  "scan_links [] line = Inr None"
| "scan_links ((category, url) # rest) line =
     (if contains category line then
        (case str_split category line of
           Inl e \<Rightarrow> Inl e
         | Inr parts \<Rightarrow>
             if length parts = 2 then
               (case add_run (parts ! 0) of
                  Inl e \<Rightarrow> Inl e
                | Inr before_link \<Rightarrow>
                   (case add_hyperlink url category of
                      Inl e \<Rightarrow> Inl e
                    | Inr hyperlink \<Rightarrow>
                       (case add_run (parts ! 1) of
                          Inl e \<Rightarrow> Inl e
                        | Inr after_link \<Rightarrow> Inr (Some [before_link, hyperlink, after_link]))))
             else scan_links rest line)
      else scan_links rest line)"

text \<open>The body of the loop over the lines: one paragraph for the line.\<close>

definition line_paragraph :: "(pystr \<times> pystr) list \<Rightarrow> pystr \<Rightarrow> error + docx_paragraph" where
  "line_paragraph links_dict line =
     (case scan_links links_dict line of
        Inl e \<Rightarrow> Inl e
      | Inr (Some runs) \<Rightarrow> Inr runs
      | Inr None \<Rightarrow> (case add_run line of Inl e \<Rightarrow> Inl e | Inr r \<Rightarrow> Inr [r]))"

fun add_paragraphs :: "(pystr \<times> pystr) list \<Rightarrow> pystr list \<Rightarrow> docx_document \<Rightarrow> error + docx_document" where
  "add_paragraphs links_dict [] doc = Inr doc"
| "add_paragraphs links_dict (line # lines) doc =
     (case line_paragraph links_dict line of
        Inl e \<Rightarrow> Inl e
      | Inr p \<Rightarrow> add_paragraphs links_dict lines (doc @ [p]))"

definition create_hyperlinked_docx :: "pystr \<Rightarrow> (pystr \<times> pystr) list \<Rightarrow> error + docx_document" where
  "create_hyperlinked_docx template_text links_dict =
     (case str_split [10] template_text of
        Inl e \<Rightarrow> Inl e
      | Inr lines \<Rightarrow> add_paragraphs links_dict lines [])"

text \<open>
  \<open>doc.save(doc_io)\<close> writes the relationships of the hyperlinks; the target of one is
  an attribute value, and a target that is not XML compatible raises \<open>ValueError\<close>.
\<close>

fun run_saves :: "run \<Rightarrow> bool" where
  "run_saves (Plain items) = True"
| "run_saves (Hyperlink url t) = list_all xml_char url"

definition save_document :: "docx_document \<Rightarrow> error + unit" where
  "save_document doc =
     (if list_all (list_all run_saves) doc then Inr () else Inl ValueError)"

section \<open>The session link table\<close>

text \<open>
  \<open>st.session_state.links\<close> is a list of dictionaries with the keys \<open>category\<close> and
  \<open>url\<close>; it starts empty and is changed by three buttons only.
\<close>

record link =
  category :: pystr
  url :: pystr

text \<open>"Add Link": appends when both text inputs are truthy, that is non-empty.\<close>

definition add_link :: "pystr \<Rightarrow> pystr \<Rightarrow> link list \<Rightarrow> link list" where
  "add_link new_category new_url links =
     (if new_category \<noteq> [] \<and> new_url \<noteq> []
      then links @ [\<lparr>category = new_category, url = new_url\<rparr>]
      else links)"

text \<open>\<open>links.pop(idx)\<close> raises \<open>IndexError\<close> out of range.\<close>

definition list_pop :: "nat \<Rightarrow> 'a list \<Rightarrow> error + 'a list" where
  "list_pop idx xs =
     (if idx < length xs then Inr (take idx xs @ drop (Suc idx) xs) else Inl IndexError)"

datatype action = AddLink pystr pystr | DeleteLink nat | ClearAllLinks

fun link_action :: "action \<Rightarrow> link list \<Rightarrow> error + link list" where
  "link_action (AddLink new_category new_url) links = Inr (add_link new_category new_url links)"
| "link_action (DeleteLink idx) links = list_pop idx links"
| "link_action ClearAllLinks links = Inr []"

fun run_actions :: "action list \<Rightarrow> link list \<Rightarrow> error + link list" where
  "run_actions [] links = Inr links"
| "run_actions (a # as) links =
     (case link_action a links of Inl e \<Rightarrow> Inl e | Inr links' \<Rightarrow> run_actions as links')"

text \<open>
  The dictionary comprehension \<open>{link['category']: link['url'] for link in links}\<close>: a
  key that comes again keeps its first position and takes the later value.
\<close>

fun dict_set :: "'k \<Rightarrow> 'v \<Rightarrow> ('k \<times> 'v) list \<Rightarrow> ('k \<times> 'v) list" where
  "dict_set k v [] = [(k, v)]"
| "dict_set k v ((k', v') # d) =
     (if k' = k then (k, v) # d else (k', v') # dict_set k v d)"

definition links_dict_of :: "link list \<Rightarrow> (pystr \<times> pystr) list" where
  "links_dict_of links = foldl (\<lambda>d l. dict_set (category l) (url l) d) [] links"

section \<open>The AI request\<close>

datatype model_choice = ClaudeSonnet45 | ClaudeSonnet4 | ClaudeOpus4 | Gemini20Flash

fun MODELS :: "model_choice \<Rightarrow> pystr" where
  "MODELS ClaudeSonnet45 = ascii ''anthropic/claude-sonnet-4.5''"
| "MODELS ClaudeSonnet4 = ascii ''anthropic/claude-sonnet-4''"
| "MODELS ClaudeOpus4 = ascii ''anthropic/claude-opus-4''"
| "MODELS Gemini20Flash = ascii ''google/gemini-2.0-flash-exp:free''"

text \<open>
  The Python values that a JSON body can hold. Of a number only its being zero is kept,
  which is all its truth value depends on.
\<close>

datatype pyval =
    PyNone
  | PyBool bool
  | PyNumber (nonzero: bool)
  | PyStr pystr
  | PyList "pyval list"
  | PyDict "(pystr \<times> pyval) list"

text \<open>
  What the network gives back to \<open>requests.post\<close>: an exception of the transport
  (timeout included), or a response with its status and the value of
  \<open>response.json()['choices'][0]['message']['content']\<close>, which is missing (\<open>None\<close>
  here) when the body is not JSON of that shape. The network is a parameter \<open>post\<close> of
  the model, from the credential, the model name and the prompt.
\<close>

datatype http_outcome = TransportError | HttpResponse nat "pyval option"

type_synonym network = "pystr \<Rightarrow> pystr \<Rightarrow> pystr \<Rightarrow> http_outcome"

text \<open>
  \<open>raise_for_status\<close> raises for the statuses 400 to 599 and for no other; every
  exception is caught and turned into \<open>None\<close>. The content is returned as it is,
  whatever its type.
\<close>

definition call_openrouter :: "network \<Rightarrow> pystr \<Rightarrow> pystr \<Rightarrow> pystr \<Rightarrow> pyval" where
  "call_openrouter post api_key model prompt =
     (case post api_key model prompt of
        TransportError \<Rightarrow> PyNone
      | HttpResponse status content \<Rightarrow>
          if 400 \<le> status \<and> status < 600 then PyNone
          else (case content of None \<Rightarrow> PyNone | Some v \<Rightarrow> v))"

definition compose_prompt :: "pystr \<Rightarrow> pystr \<Rightarrow> pystr" where
  "compose_prompt template ai_instructions =
     ascii ''You are helping customize a communication template for a market research task.''
     @ [10, 10] @ ascii ''Original template:'' @ [10] @ template
     @ [10, 10] @ ascii ''Special instructions for this specific campaign:'' @ [10]
     @ ai_instructions
     @ [10, 10] @ ascii ''Please provide:'' @ [10]
     @ ascii ''1. A customized intro paragraph (keep it friendly and brief, 2-3 sentences max)''
     @ [10]
     @ ascii ''2. Customized important notes/instructions based on the special instructions provided''
     @ [10, 10] @ ascii ''Format your response as:'' @ [10]
     @ ascii ''INTRO:'' @ [10] @ ascii ''[Your intro paragraph here]''
     @ [10, 10] @ ascii ''IMPORTANT_NOTES:'' @ [10]
     @ ascii ''[Your important notes here, as bullet points if needed]''
     @ [10, 10]
     @ ascii ''Keep all X placeholders intact for mail merge. Match the tone and style of the original.''"

definition generate_ai_content :: "network \<Rightarrow> pystr \<Rightarrow> pystr \<Rightarrow> pystr \<Rightarrow> pystr \<Rightarrow> pyval" where
  "generate_ai_content post api_key model template ai_instructions =
     call_openrouter post api_key model (compose_prompt template ai_instructions)"

section \<open>Splicing the AI response into the template\<close>

definition INTRO_MARKER :: pystr where
  "INTRO_MARKER = ascii ''INTRO:''"

definition NOTES_MARKER :: pystr where
  "NOTES_MARKER = ascii ''IMPORTANT_NOTES:''"

definition GREETING :: pystr where
  "GREETING = ascii ''Hi!''"

text \<open>The section anchor: U+1F37D (fork and knife with plate) and U+FE0F.\<close>

definition SECTION_ANCHOR :: pystr where
  "SECTION_ANCHOR = [127869, 65039]"

text \<open>\<open>xs[i]\<close> raises \<open>IndexError\<close> out of range (the indices used are not negative).\<close>

definition list_get :: "'a list \<Rightarrow> nat \<Rightarrow> error + 'a" where
  "list_get xs i = (if i < length xs then Inr (xs ! i) else Inl IndexError)"

text \<open>
  The block of the generate handler under \<open>if ai_response:\<close>, which parses the response
  and updates \<open>final_template\<close>. \<open>notes\<close> is computed and not used.
\<close>

definition splice_intro :: "pystr \<Rightarrow> pystr \<Rightarrow> error + pystr" where
  "splice_intro final_template ai_response =
     (if contains INTRO_MARKER ai_response \<and> contains NOTES_MARKER ai_response then
        (case str_split NOTES_MARKER ai_response of
           Inl e \<Rightarrow> Inl e
         | Inr parts \<Rightarrow>
            (case list_get parts 0 of
               Inl e \<Rightarrow> Inl e
             | Inr part0 \<Rightarrow>
                (case list_get parts 1 of
                   Inl e \<Rightarrow> Inl e
                 | Inr part1 \<Rightarrow>
                    (let intro = strip (str_replace INTRO_MARKER [] part0);
                         notes = strip part1
                     in if contains GREETING final_template then
                          (let intro_start = str_find GREETING final_template;
                               intro_end = str_find SECTION_ANCHOR final_template
                           in if intro_end > intro_start
                              then Inr (slice_to final_template intro_start
                                        @ GREETING @ [10, 10] @ intro @ [10, 10]
                                        @ slice_from final_template intro_end)
                              else Inr final_template)
                        else Inr final_template))))
      else Inr final_template)"

section \<open>The generate handler\<close>

record form =
  template_text :: pystr
  api_key :: pystr
  model_choice :: model_choice
  ai_instructions :: pystr
  use_ai :: bool

text \<open>The four validation messages of the handler, and what pressing the button gives.\<close>

datatype missing_input = NoTemplate | NoLinks | NoApiKey | NoInstructions

datatype outcome = Rejected missing_input | Raised error | Generated docx_document

text \<open>The truth value of \<open>ai_response\<close> in \<open>if ai_response:\<close>.\<close>

fun truthy :: "pyval \<Rightarrow> bool" where
  "truthy PyNone = False"
| "truthy (PyBool b) = b"
| "truthy (PyNumber nz) = nz"
| "truthy (PyStr s) = (s \<noteq> [])"
| "truthy (PyList xs) = (xs \<noteq> [])"
| "truthy (PyDict kvs) = (kvs \<noteq> [])"

text \<open>
  The block under \<open>if ai_response:\<close> for a response of any type. For a string it is
  \<open>splice_intro\<close>. \<open>marker in ai_response\<close> raises \<open>TypeError\<close> on a number or a
  boolean, looks for an equal element in a list and for a key in a dictionary; with both
  markers found, \<open>ai_response.split\<close> raises \<open>AttributeError\<close> on a list or a dictionary.
\<close>

fun splice_response :: "pystr \<Rightarrow> pyval \<Rightarrow> error + pystr" where
  "splice_response final_template (PyStr s) = splice_intro final_template s"
| "splice_response final_template (PyList xs) =
     (if PyStr INTRO_MARKER \<in> set xs \<and> PyStr NOTES_MARKER \<in> set xs
      then Inl AttributeError else Inr final_template)"
| "splice_response final_template (PyDict kvs) =
     (if INTRO_MARKER \<in> set (map fst kvs) \<and> NOTES_MARKER \<in> set (map fst kvs)
      then Inl AttributeError else Inr final_template)"
| "splice_response final_template PyNone = Inl TypeError"
| "splice_response final_template (PyBool b) = Inl TypeError"
| "splice_response final_template (PyNumber nz) = Inl TypeError"

text \<open>
  \<open>final_template\<close> after the AI customization: a response that is falsy (\<open>None\<close>, an
  empty string, ...) leaves the template as it is.
\<close>

definition customize :: "network \<Rightarrow> form \<Rightarrow> error + pystr" where
  "customize post f =
     (if use_ai f then
        (let ai_response = generate_ai_content post (api_key f) (MODELS (model_choice f))
                             (template_text f) (ai_instructions f)
         in if truthy ai_response then splice_response (template_text f) ai_response
            else Inr (template_text f))
      else Inr (template_text f))"

text \<open>
  The end of the handler, from \<open>final_template\<close>: the dictionary of the links, the
  document, and its saving. No exception is caught.
\<close>

definition build_document :: "pystr \<Rightarrow> link list \<Rightarrow> outcome" where
  "build_document final_template links =
     (case create_hyperlinked_docx final_template (links_dict_of links) of
        Inl e \<Rightarrow> Raised e
      | Inr doc \<Rightarrow>
         (case save_document doc of
            Inl e \<Rightarrow> Raised e
          | Inr saved \<Rightarrow> Generated doc))"

definition generate :: "network \<Rightarrow> form \<Rightarrow> link list \<Rightarrow> outcome" where
  "generate post f links =
     (if template_text f = [] then Rejected NoTemplate
      else if links = [] then Rejected NoLinks
      else if use_ai f \<and> api_key f = [] then Rejected NoApiKey
      else if use_ai f \<and> ai_instructions f = [] then Rejected NoInstructions
      else
        (case customize post f of
           Inl e \<Rightarrow> Raised e
         | Inr final_template \<Rightarrow> build_document final_template links))"

section \<open>Notions used to state the properties\<close>

text \<open>
  The number of positions of \<open>s\<close> at which \<open>sub\<close> occurs (occurrences that overlap are
  all counted).
\<close>

fun occurrences :: "'a list \<Rightarrow> 'a list \<Rightarrow> nat" where
  "occurrences sub [] = (if sub = [] then 1 else 0)"
| "occurrences sub (x # xs) = (if prefix sub (x # xs) then 1 else 0) + occurrences sub xs"

text \<open>\<open>first_at sub s i\<close>: the first occurrence of \<open>sub\<close> in \<open>s\<close> starts at index \<open>i\<close>.\<close>

definition first_at :: "'a list \<Rightarrow> 'a list \<Rightarrow> nat \<Rightarrow> bool" where
  "first_at sub s i \<longleftrightarrow>
     i \<le> length s \<and> prefix sub (drop i s) \<and> (\<forall>j < i. \<not> prefix sub (drop j s))"

text \<open>\<open>sep.join(pieces)\<close>, the inverse of splitting.\<close>

fun join :: "'a list \<Rightarrow> 'a list list \<Rightarrow> 'a list" where
  "join sep [] = []"
| "join sep [p] = p"
| "join sep (p # q # ps) = p @ sep @ join sep (q # ps)"

text \<open>The invariant of the session link table: no entry has an empty text or URL.\<close>

definition entries_nonempty :: "link list \<Rightarrow> bool" where
  "entries_nonempty links \<longleftrightarrow> (\<forall>l \<in> set links. category l \<noteq> [] \<and> url l \<noteq> [])"

section \<open>Searching and splitting\<close>

lemma contains_Nil [simp]: "contains [] s"
  by (cases s) auto

lemma contains_prefix_closed: "contains (a @ b) s \<Longrightarrow> contains a s"
  by (induction s) (auto dest: append_prefixD)

lemma not_contains_drop: "\<not> contains sub s \<Longrightarrow> \<not> contains sub (drop n s)"
proof (induction s arbitrary: n)
  case Nil
  then show ?case by simp
next
  case (Cons x xs)
  then show ?case by (cases n) auto
qed

lemma occurrences_zero: "occurrences sub s = 0 \<longleftrightarrow> \<not> contains sub s"
  by (induction s) auto

lemma cons_first_length [simp]: "length (cons_first x ps) = (if ps = [] then 1 else length ps)"
  by (cases ps) auto

lemma hd_cons_first: "ps \<noteq> [] \<Longrightarrow> hd (cons_first x ps) = x # hd ps"
  by (cases ps) auto

lemma split_pieces_nonempty [simp]: "split_pieces sep s \<noteq> []"
  by (induction sep s rule: split_pieces.induct) (auto simp: neq_Nil_conv)

lemma split_pieces_nocontains: "\<not> contains sub s \<Longrightarrow> split_pieces sub s = [s]"
  by (induction s) auto

lemma split_pieces_contains:
  "sep \<noteq> [] \<Longrightarrow> contains sep s \<Longrightarrow> 2 \<le> length (split_pieces sep s)"
proof (induction s)
  case Nil
  then show ?case by simp
next
  case (Cons x xs)
  show ?case
  proof (cases "prefix sep (x # xs)")
    case True
    have "1 \<le> length (split_pieces sep (drop (length sep) (x # xs)))"
      using split_pieces_nonempty [of sep "drop (length sep) (x # xs)"]
      by (simp add: Suc_le_eq del: drop_Suc_Cons)
    with True Cons.prems(1) show ?thesis by (simp del: drop_Suc_Cons)
  next
    case False
    with Cons show ?thesis by simp
  qed
qed

text \<open>A text that occurs at one position only splits the line in two, around it.\<close>

lemma split_pieces_once:
  "sub \<noteq> [] \<Longrightarrow> occurrences sub s = 1 \<Longrightarrow>
   \<exists>p q. split_pieces sub s = [p, q] \<and> p @ sub @ q = s"
proof (induction s)
  case Nil
  then show ?case by simp
next
  case (Cons x xs)
  show ?case
  proof (cases "prefix sub (x # xs)")
    case True
    with Cons.prems have "occurrences sub xs = 0" by simp
    then have "\<not> contains sub xs" by (simp add: occurrences_zero)
    moreover from Cons.prems(1) obtain k where k: "length sub = Suc k"
      by (cases sub) auto
    ultimately have "\<not> contains sub (drop (length sub) (x # xs))"
      by (simp add: not_contains_drop)
    then have "split_pieces sub (x # xs) = [[], drop (length sub) (x # xs)]"
      using True Cons.prems(1) by (simp add: split_pieces_nocontains del: drop_Suc_Cons)
    moreover from True have "sub @ drop (length sub) (x # xs) = x # xs"
      by (auto simp: prefix_def)
    ultimately show ?thesis by simp
  next
    case False
    with Cons.prems have "occurrences sub xs = 1" by simp
    with Cons.IH Cons.prems(1) obtain p q
      where "split_pieces sub xs = [p, q]" "p @ sub @ q = xs"
      by blast
    with False show ?thesis by simp
  qed
qed

lemma join_cons_first: "ps \<noteq> [] \<Longrightarrow> join sep (cons_first x ps) = x # join sep ps"
  by (induction sep ps rule: join.induct) auto

lemma join_split_pieces: "sep \<noteq> [] \<Longrightarrow> join sep (split_pieces sep s) = s"
proof (induction sep s rule: split_pieces.induct)
  case (1 sep)
  then show ?case by simp
next
  case (2 sep x xs)
  show ?case
  proof (cases "prefix sep (x # xs)")
    case True
    then have eq: "sep @ drop (length sep) (x # xs) = x # xs"
      by (auto simp: prefix_def)
    obtain p ps where "split_pieces sep (drop (length sep) (x # xs)) = p # ps"
      using split_pieces_nonempty [of sep "drop (length sep) (x # xs)"]
      by (metis neq_Nil_conv)
    moreover have "join sep (split_pieces sep (drop (length sep) (x # xs)))
                   = drop (length sep) (x # xs)"
      using 2 True by simp
    ultimately show ?thesis using True 2(3) eq by (simp del: drop_Suc_Cons)
  next
    case False
    then show ?thesis using 2 by (simp add: join_cons_first)
  qed
qed

lemma split_pieces_two: "sep \<noteq> [] \<Longrightarrow> split_pieces sep s = [p, q] \<Longrightarrow> p @ sep @ q = s"
  using join_split_pieces [of sep s] by simp

lemma length_split_newline: "length (split_pieces [10] T) = Suc (count_list T (10::nat))"
  by (induction T) auto

lemma split_newline_snoc_ex:
  "\<exists>ps. ps \<noteq> [] \<and> split_pieces [10] (T @ [10::nat]) = ps @ [[]]"
proof (induction T)
  case Nil
  have "split_pieces [10] [10::nat] = [[]] @ [[]]" by simp
  then show ?case by (metis append_Nil not_Cons_self2)
next
  case (Cons a T)
  then obtain p ps where ps: "split_pieces [10] (T @ [10::nat]) = (p # ps) @ [[]]"
    by (auto simp: neq_Nil_conv)
  show ?case
  proof (cases "a = 10")
    case True
    with ps have "split_pieces [10] ((a # T) @ [10]) = ([] # p # ps) @ [[]]" by simp
    then show ?thesis by blast
  next
    case False
    with ps have "split_pieces [10] ((a # T) @ [10]) = ((a # p) # ps) @ [[]]" by simp
    then show ?thesis by blast
  qed
qed

lemma split_newline_snoc: "last (split_pieces [10] (T @ [10::nat])) = []"
  using split_newline_snoc_ex [of T] by auto

subsection \<open>\<open>find\<close> returns the first occurrence\<close>

lemma first_at_0: "first_at sub s 0 \<longleftrightarrow> prefix sub s"
  by (simp add: first_at_def)

lemma first_at_Suc:
  "first_at sub (x # xs) (Suc i) \<longleftrightarrow> \<not> prefix sub (x # xs) \<and> first_at sub xs i"
proof -
  have "(\<forall>j < Suc i. \<not> prefix sub (drop j (x # xs)))
        \<longleftrightarrow> \<not> prefix sub (x # xs) \<and> (\<forall>j < i. \<not> prefix sub (drop j xs))"
    by (auto simp: less_Suc_eq_0_disj)
  then show ?thesis by (auto simp: first_at_def)
qed

lemma first_at_Nil: "first_at sub [] i \<longleftrightarrow> sub = [] \<and> i = 0"
  by (auto simp: first_at_def)

lemma str_find_ge: "- 1 \<le> str_find sub s"
  by (induction s) (auto simp: Let_def)

lemma str_find_neg: "str_find sub s < 0 \<longleftrightarrow> str_find sub s = - 1"
  using str_find_ge [of sub s] by linarith

lemma str_find_absent: "str_find sub s = - 1 \<longleftrightarrow> \<not> contains sub s"
proof (induction s)
  case Nil
  then show ?case by simp
next
  case (Cons x xs)
  have "str_find sub xs + 1 \<noteq> - 1"
    using str_find_ge [of sub xs] by linarith
  with Cons show ?case by (simp add: Let_def str_find_neg)
qed

lemma str_find_first_at: "str_find sub s = int i \<longleftrightarrow> first_at sub s i"
proof (induction s arbitrary: i)
  case Nil
  then show ?case by (auto simp: first_at_Nil)
next
  case (Cons x xs)
  show ?case
  proof (cases i)
    case 0
    then show ?thesis using str_find_ge [of sub xs] by (auto simp: first_at_0 Let_def)
  next
    case (Suc k)
    have "str_find sub xs + 1 = int (Suc k) \<longleftrightarrow> str_find sub xs = int k" by auto
    then show ?thesis using Suc Cons.IH [of k] by (auto simp: first_at_Suc Let_def)
  qed
qed

lemma split_pieces_hd:
  "sep \<noteq> [] \<Longrightarrow> first_at sep s k \<Longrightarrow> hd (split_pieces sep s) = take k s"
proof (induction s arbitrary: k)
  case Nil
  then show ?case by (simp add: first_at_Nil)
next
  case (Cons x xs)
  show ?case
  proof (cases k)
    case 0
    with Cons.prems show ?thesis by (simp add: first_at_0 del: drop_Suc_Cons)
  next
    case (Suc k')
    with Cons.prems have "\<not> prefix sep (x # xs)" "first_at sep xs k'"
      by (simp_all add: first_at_Suc)
    with Cons.IH [of k'] Cons.prems(1) Suc show ?thesis
      by (simp add: hd_cons_first)
  qed
qed

section \<open>The builder, line by line\<close>

lemma concat_cons_first: "ps \<noteq> [] \<Longrightarrow> concat (cons_first x ps) = x # concat ps"
  by (cases ps) auto

lemma split_pieces_chars: "set (concat (split_pieces sep s)) \<subseteq> set s"
proof (induction sep s rule: split_pieces.induct)
  case (1 sep)
  then show ?case by simp
next
  case (2 sep x xs)
  show ?case
  proof (cases "sep \<noteq> [] \<and> prefix sep (x # xs)")
    case True
    then have "set (concat (split_pieces sep (drop (length sep) (x # xs))))
               \<subseteq> set (drop (length sep) (x # xs))"
      using 2 by blast
    also have "\<dots> \<subseteq> set (x # xs)"
      by (rule set_drop_subset)
    finally show ?thesis using True by (simp del: drop_Suc_Cons)
  next
    case False
    then have sub: "set (concat (split_pieces sep xs)) \<subseteq> set xs"
      using 2 by blast
    from False have "split_pieces sep (x # xs) = cons_first x (split_pieces sep xs)"
      by auto
    then have "concat (split_pieces sep (x # xs)) = x # concat (split_pieces sep xs)"
      by (simp only: concat_cons_first [OF split_pieces_nonempty])
    then have "set (concat (split_pieces sep (x # xs)))
               = insert x (set (concat (split_pieces sep xs)))"
      by (simp only: list.set)
    with sub show ?thesis by (simp only: list.set) blast
  qed
qed

lemma split_pieces_xml:
  assumes "list_all xml_char s" and "p \<in> set (split_pieces sep s)"
  shows "list_all xml_char p"
proof -
  from assms(2) have "set p \<subseteq> set (concat (split_pieces sep s))" by auto
  with split_pieces_chars [of sep s] have "set p \<subseteq> set s" by blast
  with assms(1) show ?thesis by (auto simp: list_all_iff)
qed

lemma contains_chars: "contains c s \<Longrightarrow> set c \<subseteq> set s"
proof (induction s)
  case Nil
  then show ?case by simp
next
  case (Cons x xs)
  then show ?case using set_mono_prefix [of c "x # xs"] by auto
qed

lemma contains_xml: "contains c s \<Longrightarrow> list_all xml_char s \<Longrightarrow> list_all xml_char c"
  using contains_chars [of c s] by (auto simp: list_all_iff)

text \<open>The text of a run made by \<open>add_run\<close>: a carriage return has become a line feed.\<close>

lemma flush_text: "concat (map item_text (flush buf)) = buf"
  by (simp add: flush_def)

lemma append_chars_text:
  "concat (map item_text (append_chars buf t)) = buf @ map (\<lambda>c. if c = 13 then 10 else c) t"
  by (induction t arbitrary: buf) (auto simp: flush_text)

lemma run_content_text:
  "run_text (Plain (run_content t)) = map (\<lambda>c. if c = 13 then 10 else c) t"
  by (simp add: run_content_def append_chars_text)

lemma run_content_text_no_cr:
  assumes "13 \<notin> set t"
  shows "run_text (Plain (run_content t)) = t"
proof -
  from assms have "map (\<lambda>c. if c = 13 then 10 else c) t = t"
    by (induction t) auto
  then show ?thesis by (simp only: run_content_text)
qed

lemma scan_links_skip:
  "\<forall>(c, u) \<in> set before. \<not> contains c line \<Longrightarrow>
   scan_links (before @ rest) line = scan_links rest line"
  by (induction before) auto

lemma scan_links_none:
  "\<forall>(c, u) \<in> set L. \<not> contains c line \<Longrightarrow> scan_links L line = Inr None"
  by (induction L) auto

lemma scan_links_pass:
  assumes "c \<noteq> []" and "length (split_pieces c line) \<noteq> 2"
  shows "scan_links ((c, u) # rest) line = scan_links rest line"
  using assms by (simp add: str_split_def)

lemma scan_links_drop_entry:
  assumes "c \<noteq> []" and "length (split_pieces c line) \<noteq> 2"
  shows "scan_links (before @ (c, u) # after) line = scan_links (before @ after) line"
proof (induction before)
  case Nil
  show ?case unfolding append_Nil using assms by (rule scan_links_pass)
next
  case (Cons e before)
  obtain c' u' where e: "e = (c', u')" by (cases e)
  show ?case unfolding e using Cons.IH by (simp split: sum.splits)
qed

text \<open>An entry that is reached and splits an XML-compatible line in two gives the three runs.\<close>

lemma scan_links_hit:
  assumes "c \<noteq> []" and "contains c line" and "split_pieces c line = [pre, post]"
    and "list_all xml_char line"
  shows "scan_links ((c, u) # rest) line
         = Inr (Some [Plain (run_content pre), Hyperlink u c, Plain (run_content post)])"
proof -
  have "list_all xml_char pre" "list_all xml_char post"
    using split_pieces_xml [OF assms(4), of _ c] assms(3) by simp_all
  moreover have "list_all xml_char c"
    using assms(2,4) by (rule contains_xml)
  ultimately show ?thesis
    using assms(1,2,3) by (simp add: str_split_def add_run_def add_hyperlink_def)
qed

lemma scan_links_total:
  assumes "[] \<notin> fst ` set L" and "list_all xml_char line"
  shows "\<exists>r. scan_links L line = Inr r"
  using assms(1)
proof (induction L)
  case Nil
  then show ?case by simp
next
  case (Cons e L)
  obtain c u where e: "e = (c, u)" by (cases e)
  with Cons.prems have c: "c \<noteq> []" and rest: "[] \<notin> fst ` set L" by auto
  show ?case
  proof (cases "contains c line \<and> length (split_pieces c line) = 2")
    case True
    then obtain pre post where "split_pieces c line = [pre, post]"
      by (auto simp: length_Suc_conv numeral_2_eq_2)
    with True c assms(2) have "scan_links ((c, u) # L) line
         = Inr (Some [Plain (run_content pre), Hyperlink u c, Plain (run_content post)])"
      by (intro scan_links_hit) auto
    then show ?thesis unfolding e by blast
  next
    case False
    then show ?thesis unfolding e using Cons.IH [OF rest] c by (auto simp: str_split_def)
  qed
qed

lemma line_paragraph_total:
  assumes "[] \<notin> fst ` set L" and "list_all xml_char line"
  shows "\<exists>p. line_paragraph L line = Inr p"
  using scan_links_total [OF assms] assms(2)
  by (auto simp: line_paragraph_def add_run_def split: option.splits)

lemma line_paragraph_none:
  assumes "\<forall>(c, u) \<in> set L. \<not> contains c line" and "list_all xml_char line"
  shows "line_paragraph L line = Inr [Plain (run_content line)]"
  using assms by (simp add: line_paragraph_def scan_links_none add_run_def)

text \<open>On the empty line no entry can be linked: an empty text raises, any other is absent.\<close>

lemma scan_links_empty_line: "scan_links L [] = Inr r \<Longrightarrow> r = None"
  by (induction L) (auto simp: str_split_def split: if_splits)

lemma line_paragraph_empty_line: "line_paragraph L [] = Inr p \<Longrightarrow> p = [Plain []]"
  using scan_links_empty_line [of L]
  by (auto simp: line_paragraph_def add_run_def run_content_def flush_def
      split: sum.splits option.splits)

text \<open>The document is the list of the paragraphs of the lines, when no line raises.\<close>

lemma add_paragraphs_Inr:
  "add_paragraphs L lines doc = Inr doc' \<longleftrightarrow>
   (\<exists>ps. doc' = doc @ ps \<and> list_all2 (\<lambda>l p. line_paragraph L l = Inr p) lines ps)"
proof (induction lines arbitrary: doc)
  case Nil
  then show ?case by auto
next
  case (Cons l lines)
  show ?case
  proof (cases "line_paragraph L l")
    case (Inl e)
    then show ?thesis by (auto simp: list_all2_Cons1)
  next
    case (Inr p)
    then show ?thesis by (auto simp: Cons.IH list_all2_Cons1)
  qed
qed

lemma create_hyperlinked_docx_Inr:
  "create_hyperlinked_docx T L = Inr doc \<longleftrightarrow>
   list_all2 (\<lambda>l p. line_paragraph L l = Inr p) (split_pieces [10] T) doc"
  by (simp add: create_hyperlinked_docx_def str_split_def add_paragraphs_Inr)

lemma create_hyperlinked_docx_total:
  assumes "[] \<notin> fst ` set L" and "list_all xml_char T"
  shows "\<exists>doc. create_hyperlinked_docx T L = Inr doc"
proof -
  have "\<exists>ps. list_all2 (\<lambda>l p. line_paragraph L l = Inr p) lines ps"
    if "\<forall>l \<in> set lines. list_all xml_char l" for lines
    using that
  proof (induction lines)
    case Nil
    then show ?case by simp
  next
    case (Cons l lines)
    then obtain ps where "list_all2 (\<lambda>l p. line_paragraph L l = Inr p) lines ps" by auto
    moreover obtain p where "line_paragraph L l = Inr p"
      using line_paragraph_total [OF assms(1), of l] Cons.prems by auto
    ultimately have "list_all2 (\<lambda>l p. line_paragraph L l = Inr p) (l # lines) (p # ps)"
      by simp
    then show ?case by blast
  qed
  moreover have "\<forall>l \<in> set (split_pieces [10] T). list_all xml_char l"
    using split_pieces_xml [OF assms(2)] by blast
  ultimately show ?thesis by (simp add: create_hyperlinked_docx_Inr)
qed

lemma create_hyperlinked_docx_nth:
  assumes "[] \<notin> fst ` set L" and "list_all xml_char T" and "i < length (split_pieces [10] T)"
  shows "\<exists>doc. create_hyperlinked_docx T L = Inr doc
           \<and> length doc = length (split_pieces [10] T)
           \<and> line_paragraph L (split_pieces [10] T ! i) = Inr (doc ! i)
           \<and> list_all xml_char (split_pieces [10] T ! i)"
proof -
  obtain doc where doc: "create_hyperlinked_docx T L = Inr doc"
    using create_hyperlinked_docx_total [OF assms(1,2)] by blast
  then have all: "list_all2 (\<lambda>l p. line_paragraph L l = Inr p) (split_pieces [10] T) doc"
    by (simp add: create_hyperlinked_docx_Inr)
  then have "length doc = length (split_pieces [10] T)"
    by (simp add: list_all2_lengthD)
  moreover from all assms(3) have "line_paragraph L (split_pieces [10] T ! i) = Inr (doc ! i)"
    by (rule list_all2_nthD)
  moreover have "list_all xml_char (split_pieces [10] T ! i)"
    using split_pieces_xml [OF assms(2)] assms(3) nth_mem by blast
  ultimately show ?thesis using doc by blast
qed

text \<open>More on runs, lines and first occurrences.\<close>

lemma append_chars_plain:
  "9 \<notin> set t \<Longrightarrow> 10 \<notin> set t \<Longrightarrow> 13 \<notin> set t \<Longrightarrow> append_chars buf t = flush (buf @ t)"
  by (induction t arbitrary: buf) auto

lemma run_content_plain:
  "9 \<notin> set t \<Longrightarrow> 10 \<notin> set t \<Longrightarrow> 13 \<notin> set t \<Longrightarrow> run_content t = flush t"
  by (simp add: run_content_def append_chars_plain)

lemma split_newline_no_lf: "p \<in> set (split_pieces [10] T) \<Longrightarrow> (10::nat) \<notin> set p"
proof (induction T arbitrary: p)
  case Nil
  then show ?case by simp
next
  case (Cons a T)
  obtain p0 ps where ps: "split_pieces [10] T = p0 # ps"
    using split_pieces_nonempty [of "[10]" T] by (cases "split_pieces [10] T") auto
  show ?case
  proof (cases "a = 10")
    case True
    with Cons show ?thesis by auto
  next
    case False
    with Cons.prems ps have "p = a # p0 \<or> p \<in> set ps" by auto
    with Cons.IH ps False show ?thesis by auto
  qed
qed

lemma contains_first_at: "contains sub s \<Longrightarrow> \<exists>k. first_at sub s k"
proof -
  assume "contains sub s"
  then have "str_find sub s \<noteq> - 1" by (simp add: str_find_absent)
  with str_find_ge [of sub s] have "0 \<le> str_find sub s" by linarith
  then have "str_find sub s = int (nat (str_find sub s))" by simp
  then show ?thesis using str_find_first_at by blast
qed

lemma split_pieces_two_first:
  assumes "sep \<noteq> []" and "split_pieces sep s = [p, q]" and "first_at sep s k"
  shows "p = take k s \<and> q = drop (k + length sep) s"
proof -
  have p: "p = take k s"
    using split_pieces_hd [OF assms(1,3)] assms(2) by simp
  have k: "k \<le> length s" using assms(3) by (simp add: first_at_def)
  have cat: "p @ sep @ q = s" using assms(1,2) by (rule split_pieces_two)
  from p k have "length p = k" by simp
  with cat have "drop (k + length sep) s = q"
    by (metis append.assoc append_eq_conv_conj length_append)
  with p show ?thesis by simp
qed

section \<open>Properties of the document builder\<close>

text \<open>
  Claim C1. For every template \<open>T\<close> and every link table \<open>L\<close>, a document that the
  builder returns has exactly as many paragraphs as splitting \<open>T\<close> on the newline
  character gives lines, one more than the number of newline characters of \<open>T\<close>; in it
  an empty line gives an empty paragraph (one plain run with no content), the empty
  template gives exactly one empty paragraph, and a trailing newline gives a trailing
  empty paragraph. The builder does return a document when no entry of \<open>L\<close> has an empty
  text and every character of \<open>T\<close> is XML compatible.
\<close>

theorem paragraph_count:
  "(\<forall>doc. create_hyperlinked_docx T L = Inr doc \<longrightarrow>
       length doc = length (split_pieces [10] T)
       \<and> length doc = Suc (count_list T 10)
       \<and> (\<forall>i < length doc. split_pieces [10] T ! i = [] \<longrightarrow> doc ! i = [Plain []])
       \<and> (T = [] \<longrightarrow> doc = [[Plain []]])
       \<and> (\<forall>T'. T = T' @ [10] \<longrightarrow> last doc = [Plain []]))
   \<and> ([] \<notin> fst ` set L \<and> list_all xml_char T
        \<longrightarrow> (\<exists>doc. create_hyperlinked_docx T L = Inr doc))"
proof -
  have part: "length doc = length (split_pieces [10] T)
       \<and> length doc = Suc (count_list T 10)
       \<and> (\<forall>i < length doc. split_pieces [10] T ! i = [] \<longrightarrow> doc ! i = [Plain []])
       \<and> (T = [] \<longrightarrow> doc = [[Plain []]])
       \<and> (\<forall>T'. T = T' @ [10] \<longrightarrow> last doc = [Plain []])"
    if doc: "create_hyperlinked_docx T L = Inr doc" for doc
  proof -
    from doc have all: "list_all2 (\<lambda>l p. line_paragraph L l = Inr p) (split_pieces [10] T) doc"
      by (simp add: create_hyperlinked_docx_Inr)
    then have len: "length doc = length (split_pieces [10] T)"
      by (simp add: list_all2_lengthD)
    have nth: "line_paragraph L (split_pieces [10] T ! i) = Inr (doc ! i)"
      if "i < length doc" for i
      using list_all2_nthD [OF all, of i] that len by simp
    have empty: "doc ! i = [Plain []]" if "i < length doc" "split_pieces [10] T ! i = []" for i
      using nth [OF that(1)] that(2) line_paragraph_empty_line [of L "doc ! i"] by simp
    have "doc = [[Plain []]]" if "T = []"
    proof -
      from that len have "length doc = 1" by simp
      then obtain p where p: "doc = [p]" by (cases doc) auto
      with empty [of 0] that show ?thesis by simp
    qed
    moreover have "last doc = [Plain []]" if "T = T' @ [10]" for T'
    proof -
      have ne: "doc \<noteq> []" using len by auto
      then have "last doc = doc ! (length doc - 1)" by (rule last_conv_nth)
      moreover have "split_pieces [10] T ! (length doc - 1) = []"
        using split_newline_snoc [of T'] that len
        by (simp add: last_conv_nth)
      ultimately show ?thesis using empty [of "length doc - 1"] ne by simp
    qed
    ultimately show ?thesis using len empty length_split_newline [of T] by auto
  qed
  moreover have "\<exists>doc. create_hyperlinked_docx T L = Inr doc"
    if "[] \<notin> fst ` set L \<and> list_all xml_char T"
    using that create_hyperlinked_docx_total by blast
  ultimately show ?thesis by blast
qed

text \<open>
  The template \<open>"a\n\nxb\n"\<close> with the link \<open>b\<close>: four paragraphs, the second and the
  last empty.
\<close>

theorem paragraph_count_witness:
  "[] \<notin> fst ` set [(ascii ''b'', ascii ''u'')]
   \<and> list_all xml_char (ascii ''a'' @ [10, 10] @ ascii ''xb'' @ [10])
   \<and> (\<exists>doc. create_hyperlinked_docx (ascii ''a'' @ [10, 10] @ ascii ''xb'' @ [10])
               [(ascii ''b'', ascii ''u'')] = Inr doc
          \<and> length doc = 4 \<and> doc ! 1 = [Plain []] \<and> last doc = [Plain []])"
  (is "?h1 \<and> ?h2 \<and> ?c")
proof -
  let ?T = "ascii ''a'' @ [10, 10] @ ascii ''xb'' @ [10]"
  let ?L = "[(ascii ''b'', ascii ''u'')]"
  have h1: ?h1 and h2: ?h2
    by (simp_all add: ascii_def xml_char_def)
  have n: "length (split_pieces [10] ?T) = 4" and e: "split_pieces [10] ?T ! 1 = []"
    by (simp_all add: ascii_def)
  have t: "?T = (ascii ''a'' @ [10, 10] @ ascii ''xb'') @ [10]"
    by simp
  from paragraph_count [of ?T ?L] h1 h2
  obtain doc where doc: "create_hyperlinked_docx ?T ?L = Inr doc"
    by blast
  with paragraph_count [of ?T ?L]
  have len: "length doc = length (split_pieces [10] ?T)"
    and emp: "\<forall>i < length doc. split_pieces [10] ?T ! i = [] \<longrightarrow> doc ! i = [Plain []]"
    and lst: "\<forall>T'. ?T = T' @ [10] \<longrightarrow> last doc = [Plain []]"
    by blast+
  from len n have "length doc = 4" by simp
  moreover from this emp e have "doc ! 1 = [Plain []]" by simp
  moreover from lst t have "last doc = [Plain []]" by blast
  ultimately have ?c using doc by blast
  with h1 h2 show ?thesis by blast
qed

text \<open>
  Claim C2, as stated, fails. In the line \<open>x<VT>b\<close> the text of the entry \<open>b\<close> occurs
  once, and the builder raises \<open>ValueError\<close> in \<open>add_run\<close> on the vertical tab: there is
  no paragraph. In the line \<open>x<CR>b\<close> the carriage return before the match is stored as
  a break, and the texts of the three runs do not concatenate to the line.
\<close>

theorem single_match_counterexample:
  "occurrences (ascii ''b'') [120, 11, 98] = 1
   \<and> create_hyperlinked_docx [120, 11, 98] [(ascii ''b'', ascii ''u'')] = Inl ValueError
   \<and> occurrences (ascii ''b'') [120, 13, 98] = 1
   \<and> create_hyperlinked_docx [120, 13, 98] [(ascii ''b'', ascii ''u'')]
       = Inr [[Plain [TextElement [120], BreakElement],
               Hyperlink (ascii ''u'') (ascii ''b''), Plain []]]
   \<and> paragraph_text [Plain [TextElement [120], BreakElement],
                      Hyperlink (ascii ''u'') (ascii ''b''), Plain []] \<noteq> [120, 13, 98]"
  by (simp add: create_hyperlinked_docx_def str_split_def line_paragraph_def add_run_def
      add_hyperlink_def run_content_def flush_def xml_char_def paragraph_text_def ascii_def)

text \<open>
  Claim C2, amended. For every line of a template of XML-compatible characters that
  contains exactly one occurrence of exactly one link entry's text (no other entry of
  the table occurs in the line), the paragraph of that line has exactly three runs: a
  plain run made from the text before the match, a hyperlink run with the entry's text
  and the entry's URL as target, and a plain run made from the text after the match.
  When the line has no carriage return, the texts of the three runs are the text
  before, the entry's text and the text after, and concatenated they are the line.
\<close>

theorem single_match_three_runs:
  assumes "list_all xml_char T"
    and "i < length (split_pieces [10] T)" and "split_pieces [10] T ! i = line"
    and "L = before @ (c, u) # after"
    and "\<forall>(c', u') \<in> set (before @ after). \<not> contains c' line"
    and "c \<noteq> []" and "occurrences c line = 1"
  shows "\<exists>doc pre post. create_hyperlinked_docx T L = Inr doc
           \<and> doc ! i = [Plain (run_content pre), Hyperlink u c, Plain (run_content post)]
           \<and> pre @ c @ post = line
           \<and> (13 \<notin> set line \<longrightarrow>
                 map run_text (doc ! i) = [pre, c, post] \<and> paragraph_text (doc ! i) = line)"
proof -
  have wf: "[] \<notin> fst ` set L"
    using assms(4,5,6) by force
  obtain doc where doc: "create_hyperlinked_docx T L = Inr doc"
    and nth: "line_paragraph L line = Inr (doc ! i)"
    and xml: "list_all xml_char line"
    using create_hyperlinked_docx_nth [OF wf assms(1,2)] assms(3) by auto
  obtain pre post where split: "split_pieces c line = [pre, post]" and cat: "pre @ c @ post = line"
    using split_pieces_once [OF assms(6,7)] by blast
  have occ: "contains c line"
    using assms(7) occurrences_zero [of c line] by auto
  have "scan_links L line = scan_links ((c, u) # after) line"
    unfolding assms(4) using assms(5) by (intro scan_links_skip) auto
  also have "\<dots> = Inr (Some [Plain (run_content pre), Hyperlink u c, Plain (run_content post)])"
    using assms(6) occ split xml by (rule scan_links_hit)
  finally have "line_paragraph L line
                = Inr [Plain (run_content pre), Hyperlink u c, Plain (run_content post)]"
    by (simp add: line_paragraph_def)
  with nth have runs: "doc ! i = [Plain (run_content pre), Hyperlink u c, Plain (run_content post)]"
    by simp
  have "map run_text (doc ! i) = [pre, c, post] \<and> paragraph_text (doc ! i) = line"
    if "13 \<notin> set line"
  proof -
    from that cat have "13 \<notin> set pre" "13 \<notin> set post" by auto
    then have "run_text (Plain (run_content pre)) = pre" "run_text (Plain (run_content post)) = post"
      using run_content_text_no_cr by blast+
    with runs cat show ?thesis by (simp add: paragraph_text_def)
  qed
  then have "13 \<notin> set line \<longrightarrow>
       map run_text (doc ! i) = [pre, c, post] \<and> paragraph_text (doc ! i) = line"
    by (rule impI)
  with doc runs cat show ?thesis
    by (intro exI [of _ doc] exI [of _ pre] exI [of _ post] conjI)
qed

text \<open>
  The scenario of the specification, with a second link that occurs in no line: in the
  third line of \<open>"Hi!\n<anchor> Important: visit a store\nVisit: Instructions Brief"\<close>
  the text \<open>Instructions Brief\<close> occurs once.
\<close>

theorem single_match_three_runs_witness:
  "list_all xml_char
     (ascii ''Hi!'' @ [10] @ SECTION_ANCHOR @ ascii '' Important: visit a store'' @ [10]
      @ ascii ''Visit: Instructions Brief'')
   \<and> 2 < length (split_pieces [10]
         (ascii ''Hi!'' @ [10] @ SECTION_ANCHOR @ ascii '' Important: visit a store'' @ [10]
          @ ascii ''Visit: Instructions Brief''))
   \<and> split_pieces [10]
         (ascii ''Hi!'' @ [10] @ SECTION_ANCHOR @ ascii '' Important: visit a store'' @ [10]
          @ ascii ''Visit: Instructions Brief'') ! 2 = ascii ''Visit: Instructions Brief''
   \<and> \<not> contains (ascii ''FAQ'') (ascii ''Visit: Instructions Brief'')
   \<and> ascii ''Instructions Brief'' \<noteq> []
   \<and> occurrences (ascii ''Instructions Brief'') (ascii ''Visit: Instructions Brief'') = 1
   \<and> 13 \<notin> set (ascii ''Visit: Instructions Brief'')
   \<and> (\<exists>doc pre post.
         create_hyperlinked_docx
           (ascii ''Hi!'' @ [10] @ SECTION_ANCHOR @ ascii '' Important: visit a store'' @ [10]
            @ ascii ''Visit: Instructions Brief'')
           ([(ascii ''FAQ'', ascii ''http://y'')]
            @ (ascii ''Instructions Brief'', ascii ''http://x'') # []) = Inr doc
         \<and> doc ! 2 = [Plain (run_content pre),
                       Hyperlink (ascii ''http://x'') (ascii ''Instructions Brief''),
                       Plain (run_content post)]
         \<and> pre @ ascii ''Instructions Brief'' @ post = ascii ''Visit: Instructions Brief''
         \<and> map run_text (doc ! 2) = [pre, ascii ''Instructions Brief'', post]
         \<and> paragraph_text (doc ! 2) = ascii ''Visit: Instructions Brief'')"
  (is "?h1 \<and> ?h2 \<and> ?h3 \<and> ?h4 \<and> ?h6 \<and> ?h7 \<and> ?h8 \<and> ?c")
proof -
  have h1: ?h1
    by (simp add: ascii_def SECTION_ANCHOR_def xml_char_def)
  have h2: ?h2 and h3: ?h3
    by (simp_all add: ascii_def SECTION_ANCHOR_def)
  have h4: ?h4 and h6: ?h6 and h7: ?h7 and h8: ?h8
    by (simp_all add: ascii_def)
  from h4 have h5: "\<forall>(c', u') \<in> set ([(ascii ''FAQ'', ascii ''http://y'')] @ []).
         \<not> contains c' (ascii ''Visit: Instructions Brief'')"
    by simp
  have c: ?c
    using single_match_three_runs [OF h1 h2 h3 refl h5 h6 h7, where u = "ascii ''http://x''"] h8
    by (elim exE conjE impE) (assumption, intro exI conjI, assumption+)
  show ?thesis
    by (intro conjI h1 h2 h3 h4 h6 h7 h8 c)
qed

text \<open>
  Claim C5, as stated, fails. No entry's text occurs in the line \<open>x<VT>\<close>, and the
  builder raises \<open>ValueError\<close> in \<open>add_run\<close>: there is no paragraph. None occurs in
  \<open>x<CR>y\<close>, whose carriage return is stored as a break, so that the text of the run is
  not the line.
\<close>

theorem no_match_counterexample:
  "\<not> contains (ascii ''b'') [120, 11]
   \<and> create_hyperlinked_docx [120, 11] [(ascii ''b'', ascii ''u'')] = Inl ValueError
   \<and> \<not> contains (ascii ''b'') [120, 13, 121]
   \<and> create_hyperlinked_docx [120, 13, 121] [(ascii ''b'', ascii ''u'')]
       = Inr [[Plain [TextElement [120], BreakElement, TextElement [121]]]]
   \<and> run_text (Plain [TextElement [120], BreakElement, TextElement [121]]) \<noteq> [120, 13, 121]"
  by (simp add: create_hyperlinked_docx_def str_split_def line_paragraph_def add_run_def
      run_content_def flush_def xml_char_def ascii_def)

text \<open>
  Claim C5, amended. For every line of a template of XML-compatible characters in which
  no link entry's text occurs, the paragraph of that line is exactly one plain run made
  from the full line, with no hyperlink run. When the line has no carriage return the
  text of the run is the line, and when it has no tab either the run holds the line as
  one text element (nothing for the empty line).
\<close>

theorem no_match_plain_run:
  assumes "list_all xml_char T"
    and "i < length (split_pieces [10] T)" and "split_pieces [10] T ! i = line"
    and "\<forall>(c, u) \<in> set L. \<not> contains c line"
  shows "\<exists>doc. create_hyperlinked_docx T L = Inr doc
           \<and> doc ! i = [Plain (run_content line)]
           \<and> (13 \<notin> set line \<longrightarrow> map run_text (doc ! i) = [line])
           \<and> (13 \<notin> set line \<and> 9 \<notin> set line \<longrightarrow>
                 doc ! i = [Plain (if line = [] then [] else [TextElement line])])"
proof -
  have wf: "[] \<notin> fst ` set L"
    using assms(4) by force
  obtain doc where doc: "create_hyperlinked_docx T L = Inr doc"
    and nth: "line_paragraph L line = Inr (doc ! i)"
    and xml: "list_all xml_char line"
    using create_hyperlinked_docx_nth [OF wf assms(1,2)] assms(3) by auto
  have "line_paragraph L line = Inr [Plain (run_content line)]"
    using assms(4) xml by (rule line_paragraph_none)
  with nth have runs: "doc ! i = [Plain (run_content line)]" by simp
  have lf: "10 \<notin> set line"
    using split_newline_no_lf [of line T] assms(2,3) nth_mem by blast
  have "map run_text (doc ! i) = [line]" if "13 \<notin> set line"
  proof -
    from that have "run_text (Plain (run_content line)) = line"
      by (rule run_content_text_no_cr)
    with runs show ?thesis by simp
  qed
  then have texts: "13 \<notin> set line \<longrightarrow> map run_text (doc ! i) = [line]"
    by (rule impI)
  have "doc ! i = [Plain (if line = [] then [] else [TextElement line])]"
    if "13 \<notin> set line \<and> 9 \<notin> set line"
    using runs that lf by (simp add: run_content_plain flush_def)
  then have element: "13 \<notin> set line \<and> 9 \<notin> set line \<longrightarrow>
      doc ! i = [Plain (if line = [] then [] else [TextElement line])]"
    by (rule impI)
  from doc runs texts element show ?thesis
    by (intro exI [of _ doc] conjI)
qed

theorem no_match_plain_run_witness:
  "list_all xml_char (ascii ''Hi!'' @ [10] @ ascii ''Visit: Instructions Brief'')
   \<and> 0 < length (split_pieces [10] (ascii ''Hi!'' @ [10] @ ascii ''Visit: Instructions Brief''))
   \<and> split_pieces [10] (ascii ''Hi!'' @ [10] @ ascii ''Visit: Instructions Brief'') ! 0
       = ascii ''Hi!''
   \<and> \<not> contains (ascii ''Instructions Brief'') (ascii ''Hi!'')
   \<and> (\<exists>doc. create_hyperlinked_docx (ascii ''Hi!'' @ [10] @ ascii ''Visit: Instructions Brief'')
               [(ascii ''Instructions Brief'', ascii ''http://x'')] = Inr doc
          \<and> doc ! 0 = [Plain (run_content (ascii ''Hi!''))]
          \<and> map run_text (doc ! 0) = [ascii ''Hi!'']
          \<and> doc ! 0 = [Plain [TextElement (ascii ''Hi!'')]])"
  (is "?h1 \<and> ?h2 \<and> ?h3 \<and> ?h \<and> ?c")
proof -
  have h1: ?h1
    by (simp add: ascii_def xml_char_def)
  have h2: ?h2
    by simp
  have h3: ?h3 and h: ?h
    by (simp_all add: ascii_def)
  from h have h4: "\<forall>(c, u) \<in> set [(ascii ''Instructions Brief'', ascii ''http://x'')].
         \<not> contains c (ascii ''Hi!'')"
    by simp
  have n: "13 \<notin> set (ascii ''Hi!'')" "9 \<notin> set (ascii ''Hi!'')" "ascii ''Hi!'' \<noteq> []"
    by (simp_all add: ascii_def)
  have c: ?c
    using no_match_plain_run [OF h1 h2 h3 h4] n by (simp only: if_False simp_thms) 
  show ?thesis
    by (intro conjI h1 h2 h3 h c)
qed

text \<open>
  Claim C3, as stated, fails. In the line \<open>a-a\<close> the text of the entry \<open>a\<close> occurs
  twice. Splitting on the first occurrence only would give an empty run, the hyperlink
  \<open>a\<close> and the run \<open>-a\<close>; the builder gives the whole line as one plain run, because
  \<open>line.split(category)\<close> has three pieces and the guard \<open>len(parts) == 2\<close> fails. And
  on the line \<open>a<VT>a-a\<close> it raises \<open>ValueError\<close> in \<open>add_run\<close>.
\<close>

theorem repeated_text_not_split_counterexample:
  "occurrences (ascii ''a'') (ascii ''a-a'') = 2
   \<and> create_hyperlinked_docx (ascii ''a-a'') [(ascii ''a'', ascii ''u'')]
       = Inr [[Plain [TextElement (ascii ''a-a'')]]]
   \<and> create_hyperlinked_docx (ascii ''a-a'') [(ascii ''a'', ascii ''u'')]
       \<noteq> Inr [[Plain [], Hyperlink (ascii ''u'') (ascii ''a''),
                Plain [TextElement (ascii ''-a'')]]]
   \<and> create_hyperlinked_docx ([97, 11] @ ascii ''a-a'') [(ascii ''a'', ascii ''u'')]
       = Inl ValueError"
  by (simp add: create_hyperlinked_docx_def str_split_def line_paragraph_def add_run_def
      run_content_def flush_def xml_char_def ascii_def)

text \<open>
  Claim C3, amended. Take a line of a template of XML-compatible characters, with a
  link table whose texts are not empty, in which the text of a link entry occurs at more
  than one position. When splitting the line on that text gives more than two pieces
  (two occurrences do not overlap), the builder does not split the line on that entry
  and emits no hyperlink for it: the paragraph of the line is the one that the table
  without this entry gives, and when no other entry's text occurs in the line it is a
  single plain run made from the full line, in which every occurrence remains literal
  text. When splitting gives two pieces (the occurrences overlap) and no earlier entry
  occurs in the line, the builder splits on the first occurrence only: the text before
  it, a hyperlink run for it, and a trailing plain run with the rest of the line.
\<close>

theorem repeated_entry:
  assumes "[] \<notin> fst ` set (before @ (c, u) # after)"
    and "list_all xml_char T"
    and "i < length (split_pieces [10] T)" and "split_pieces [10] T ! i = line"
    and "1 < occurrences c line"
  shows "\<exists>doc. create_hyperlinked_docx T (before @ (c, u) # after) = Inr doc
           \<and> (2 < length (split_pieces c line) \<longrightarrow>
                 line_paragraph (before @ after) line = Inr (doc ! i)
                 \<and> ((\<forall>(c', u') \<in> set (before @ after). \<not> contains c' line)
                      \<longrightarrow> doc ! i = [Plain (run_content line)]))
           \<and> (length (split_pieces c line) = 2
                \<and> (\<forall>(c', u') \<in> set before. \<not> contains c' line) \<longrightarrow>
                 (\<exists>k. first_at c line k
                    \<and> doc ! i = [Plain (run_content (take k line)), Hyperlink u c,
                                 Plain (run_content (drop (k + length c) line))]))"
proof -
  have c: "c \<noteq> []" using assms(1) by force
  obtain doc where doc: "create_hyperlinked_docx T (before @ (c, u) # after) = Inr doc"
    and nth: "line_paragraph (before @ (c, u) # after) line = Inr (doc ! i)"
    and xml: "list_all xml_char line"
    using create_hyperlinked_docx_nth [OF assms(1,2,3)] assms(4) by auto
  have occ: "contains c line"
    using assms(5) occurrences_zero [of c line] by auto
  have many: "line_paragraph (before @ after) line = Inr (doc ! i)
        \<and> ((\<forall>(c', u') \<in> set (before @ after). \<not> contains c' line)
             \<longrightarrow> doc ! i = [Plain (run_content line)])"
    if "2 < length (split_pieces c line)"
  proof -
    have "scan_links (before @ (c, u) # after) line = scan_links (before @ after) line"
      using c that by (intro scan_links_drop_entry) auto
    then have eq: "line_paragraph (before @ (c, u) # after) line
                   = line_paragraph (before @ after) line"
      by (simp add: line_paragraph_def)
    have "doc ! i = [Plain (run_content line)]"
      if "\<forall>(c', u') \<in> set (before @ after). \<not> contains c' line"
      using nth eq line_paragraph_none [OF that xml] by simp
    with nth eq show ?thesis by simp
  qed
  have two: "\<exists>k. first_at c line k
        \<and> doc ! i = [Plain (run_content (take k line)), Hyperlink u c,
                     Plain (run_content (drop (k + length c) line))]"
    if "length (split_pieces c line) = 2 \<and> (\<forall>(c', u') \<in> set before. \<not> contains c' line)"
  proof -
    from that obtain pre post where split: "split_pieces c line = [pre, post]"
      by (auto simp: length_Suc_conv numeral_2_eq_2)
    obtain k where k: "first_at c line k"
      using contains_first_at [OF occ] by blast
    from split_pieces_two_first [OF c split k]
    have pre: "pre = take k line" and post: "post = drop (k + length c) line"
      by simp_all
    have "scan_links (before @ (c, u) # after) line = scan_links ((c, u) # after) line"
      using that by (intro scan_links_skip) auto
    also have "\<dots> = Inr (Some [Plain (run_content pre), Hyperlink u c, Plain (run_content post)])"
      using c occ split xml by (rule scan_links_hit)
    finally have "line_paragraph (before @ (c, u) # after) line
                  = Inr [Plain (run_content pre), Hyperlink u c, Plain (run_content post)]"
      by (simp add: line_paragraph_def)
    with nth pre post k show ?thesis by auto
  qed
  from many have m: "2 < length (split_pieces c line) \<longrightarrow>
        line_paragraph (before @ after) line = Inr (doc ! i)
        \<and> ((\<forall>(c', u') \<in> set (before @ after). \<not> contains c' line)
             \<longrightarrow> doc ! i = [Plain (run_content line)])"
    by (rule impI)
  from two have t: "length (split_pieces c line) = 2
        \<and> (\<forall>(c', u') \<in> set before. \<not> contains c' line) \<longrightarrow>
        (\<exists>k. first_at c line k
           \<and> doc ! i = [Plain (run_content (take k line)), Hyperlink u c,
                        Plain (run_content (drop (k + length c) line))])"
    by (rule impI)
  from doc m t show ?thesis
    by (intro exI [of _ doc] conjI)
qed

text \<open>
  In the second line of \<open>"x\na-a b"\<close> with the table \<open>a\<close>, \<open>b\<close>, the entry \<open>a\<close> is passed
  over and the paragraph is the one of the table \<open>b\<close> alone. In the line \<open>aaa\<close> the text
  \<open>aa\<close> occurs at two positions that overlap, and the first is linked.
\<close>

theorem repeated_entry_witness:
  "[] \<notin> fst ` set ([] @ (ascii ''a'', ascii ''u'') # [(ascii ''b'', ascii ''v'')])
   \<and> list_all xml_char (ascii ''x'' @ [10] @ ascii ''a-a b'')
   \<and> 1 < length (split_pieces [10] (ascii ''x'' @ [10] @ ascii ''a-a b''))
   \<and> split_pieces [10] (ascii ''x'' @ [10] @ ascii ''a-a b'') ! 1 = ascii ''a-a b''
   \<and> 1 < occurrences (ascii ''a'') (ascii ''a-a b'')
   \<and> 2 < length (split_pieces (ascii ''a'') (ascii ''a-a b''))
   \<and> (\<exists>doc. create_hyperlinked_docx (ascii ''x'' @ [10] @ ascii ''a-a b'')
               ([] @ (ascii ''a'', ascii ''u'') # [(ascii ''b'', ascii ''v'')]) = Inr doc
          \<and> line_paragraph ([] @ [(ascii ''b'', ascii ''v'')]) (ascii ''a-a b'') = Inr (doc ! 1)
          \<and> doc ! 1 = [Plain [TextElement (ascii ''a-a '')],
                        Hyperlink (ascii ''v'') (ascii ''b''), Plain []])
   \<and> [] \<notin> fst ` set ([] @ (ascii ''aa'', ascii ''u'') # [])
   \<and> list_all xml_char (ascii ''aaa'')
   \<and> 0 < length (split_pieces [10] (ascii ''aaa''))
   \<and> split_pieces [10] (ascii ''aaa'') ! 0 = ascii ''aaa''
   \<and> 1 < occurrences (ascii ''aa'') (ascii ''aaa'')
   \<and> length (split_pieces (ascii ''aa'') (ascii ''aaa'')) = 2
   \<and> (\<exists>doc k. create_hyperlinked_docx (ascii ''aaa'')
               ([] @ (ascii ''aa'', ascii ''u'') # []) = Inr doc
          \<and> first_at (ascii ''aa'') (ascii ''aaa'') k
          \<and> doc ! 0 = [Plain (run_content (take k (ascii ''aaa''))),
                        Hyperlink (ascii ''u'') (ascii ''aa''),
                        Plain (run_content (drop (k + length (ascii ''aa'')) (ascii ''aaa'')))])"
  (is "?a1 \<and> ?a2 \<and> ?a3 \<and> ?a4 \<and> ?a5 \<and> ?a6 \<and> ?ac \<and> ?b1 \<and> ?b2 \<and> ?b3 \<and> ?b4 \<and> ?b5 \<and> ?b6 \<and> ?bc")
proof -
  have a1: ?a1 and a3: ?a3 and a4: ?a4 and a5: ?a5 and a6: ?a6
    by (simp_all add: ascii_def)
  have a2: ?a2
    by (simp add: ascii_def xml_char_def)
  have v: "line_paragraph ([] @ [(ascii ''b'', ascii ''v'')]) (ascii ''a-a b'')
       = Inr [Plain [TextElement (ascii ''a-a '')], Hyperlink (ascii ''v'') (ascii ''b''), Plain []]"
    by (simp add: line_paragraph_def str_split_def add_run_def add_hyperlink_def
          run_content_def flush_def xml_char_def ascii_def)
  from repeated_entry [OF a1 a2 a3 a4 a5]
  obtain doc where d:
    "create_hyperlinked_docx (ascii ''x'' @ [10] @ ascii ''a-a b'')
          ([] @ (ascii ''a'', ascii ''u'') # [(ascii ''b'', ascii ''v'')]) = Inr doc
     \<and> (2 < length (split_pieces (ascii ''a'') (ascii ''a-a b'')) \<longrightarrow>
           line_paragraph ([] @ [(ascii ''b'', ascii ''v'')]) (ascii ''a-a b'') = Inr (doc ! 1)
           \<and> ((\<forall>(c', u') \<in> set ([] @ [(ascii ''b'', ascii ''v'')]).
                   \<not> contains c' (ascii ''a-a b''))
                \<longrightarrow> doc ! 1 = [Plain (run_content (ascii ''a-a b''))]))
     \<and> (length (split_pieces (ascii ''a'') (ascii ''a-a b'')) = 2
          \<and> (\<forall>(c', u') \<in> set ([] :: (pystr \<times> pystr) list). \<not> contains c' (ascii ''a-a b'')) \<longrightarrow>
           (\<exists>k. first_at (ascii ''a'') (ascii ''a-a b'') k
              \<and> doc ! 1 = [Plain (run_content (take k (ascii ''a-a b''))),
                           Hyperlink (ascii ''u'') (ascii ''a''),
                           Plain (run_content (drop (k + length (ascii ''a''))
                                    (ascii ''a-a b'')))]))" ..
  note d1 = d [THEN conjunct1]
  note d2 = d [THEN conjunct2, THEN conjunct1, THEN mp, OF a6, THEN conjunct1]
  from d2 v have "doc ! 1 = [Plain [TextElement (ascii ''a-a '')],
                        Hyperlink (ascii ''v'') (ascii ''b''), Plain []]"
    by simp
  with d1 d2 have ac: ?ac
    by (intro exI [of _ doc] conjI)
  have b1: ?b1 and b3: ?b3 and b4: ?b4 and b5: ?b5 and b6: ?b6
    by (simp_all add: ascii_def)
  have b2: ?b2
    by (simp add: ascii_def xml_char_def)
  have b7: "length (split_pieces (ascii ''aa'') (ascii ''aaa'')) = 2
        \<and> (\<forall>(c', u') \<in> set ([] :: (pystr \<times> pystr) list). \<not> contains c' (ascii ''aaa''))"
    using b6 by simp
  from repeated_entry [OF b1 b2 b3 b4 b5]
  obtain doc' where e:
    "create_hyperlinked_docx (ascii ''aaa'') ([] @ (ascii ''aa'', ascii ''u'') # []) = Inr doc'
     \<and> (2 < length (split_pieces (ascii ''aa'') (ascii ''aaa'')) \<longrightarrow>
           line_paragraph ([] @ []) (ascii ''aaa'') = Inr (doc' ! 0)
           \<and> ((\<forall>(c', u') \<in> set ([] @ ([] :: (pystr \<times> pystr) list)). \<not> contains c' (ascii ''aaa''))
                \<longrightarrow> doc' ! 0 = [Plain (run_content (ascii ''aaa''))]))
     \<and> (length (split_pieces (ascii ''aa'') (ascii ''aaa'')) = 2
          \<and> (\<forall>(c', u') \<in> set ([] :: (pystr \<times> pystr) list). \<not> contains c' (ascii ''aaa'')) \<longrightarrow>
           (\<exists>k. first_at (ascii ''aa'') (ascii ''aaa'') k
              \<and> doc' ! 0 = [Plain (run_content (take k (ascii ''aaa''))),
                            Hyperlink (ascii ''u'') (ascii ''aa''),
                            Plain (run_content (drop (k + length (ascii ''aa''))
                                     (ascii ''aaa'')))]))" ..
  note e1 = e [THEN conjunct1]
  from e [THEN conjunct2, THEN conjunct2, THEN mp, OF b7]
  obtain k where e2: "first_at (ascii ''aa'') (ascii ''aaa'') k
              \<and> doc' ! 0 = [Plain (run_content (take k (ascii ''aaa''))),
                            Hyperlink (ascii ''u'') (ascii ''aa''),
                            Plain (run_content (drop (k + length (ascii ''aa''))
                                     (ascii ''aaa'')))]" ..
  from e1 e2 [THEN conjunct1] e2 [THEN conjunct2] have bc: ?bc
    by (intro exI [of _ doc'] exI [of _ k] conjI)
  show ?thesis
    by (intro conjI a1 a2 a3 a4 a5 a6 ac b1 b2 b3 b4 b5 b6 bc)
qed

text \<open>
  Claim C4, as stated, fails. The line \<open>a a b\<close> contains the texts of the entries \<open>a\<close>
  and \<open>b\<close>, and \<open>a\<close> comes first in the table; the hyperlink is the one of \<open>b\<close>, because
  \<open>a\<close> occurs twice and is passed over. And on the line \<open>b<VT> a\<close> the builder raises
  \<open>ValueError\<close> in \<open>add_run\<close> and links nothing.
\<close>

theorem earlier_entry_not_linked_counterexample:
  "contains (ascii ''a'') (ascii ''a a b'') \<and> contains (ascii ''b'') (ascii ''a a b'')
   \<and> create_hyperlinked_docx (ascii ''a a b'')
         [(ascii ''a'', ascii ''u1''), (ascii ''b'', ascii ''u2'')]
       = Inr [[Plain [TextElement (ascii ''a a '')], Hyperlink (ascii ''u2'') (ascii ''b''),
               Plain []]]
   \<and> create_hyperlinked_docx ([98, 11] @ ascii '' a'')
         [(ascii ''a'', ascii ''u1''), (ascii ''b'', ascii ''u2'')]
       = Inl ValueError"
  by (simp add: create_hyperlinked_docx_def str_split_def line_paragraph_def add_run_def
      add_hyperlink_def run_content_def flush_def xml_char_def ascii_def)

text \<open>
  Claim C4, amended. For every line of a template of XML-compatible characters, with a
  link table whose texts are not empty, whose text contains the match text of two
  distinct link entries, the first entry in table order whose text occurs in the line
  is the one that is hyperlinked, regardless of which text occurs first positionally in
  the line, provided that splitting the line on its text gives exactly two pieces; the
  paragraph is then the text before it, its hyperlink and the text after it.
\<close>

theorem earlier_entry_wins:
  assumes "[] \<notin> fst ` set L" and "list_all xml_char T"
    and "i < length (split_pieces [10] T)" and "split_pieces [10] T ! i = line"
    and "L = before @ (c1, u1) # rest"
    and "\<forall>(c, u) \<in> set before. \<not> contains c line"
    and "contains c1 line"
    and "(c2, u2) \<in> set rest" and "contains c2 line"
    and "length (split_pieces c1 line) = 2"
  shows "\<exists>doc pre post. create_hyperlinked_docx T L = Inr doc
           \<and> doc ! i = [Plain (run_content pre), Hyperlink u1 c1, Plain (run_content post)]
           \<and> pre @ c1 @ post = line"
proof -
  have c1: "c1 \<noteq> []" using assms(1,5) by force
  obtain doc where doc: "create_hyperlinked_docx T L = Inr doc"
    and nth: "line_paragraph L line = Inr (doc ! i)"
    and xml: "list_all xml_char line"
    using create_hyperlinked_docx_nth [OF assms(1,2,3)] assms(4) by auto
  obtain pre post where split: "split_pieces c1 line = [pre, post]"
    using assms(10) by (auto simp: length_Suc_conv numeral_2_eq_2)
  then have cat: "pre @ c1 @ post = line"
    using c1 by (rule split_pieces_two [rotated])
  have "scan_links L line = scan_links ((c1, u1) # rest) line"
    unfolding assms(5) using assms(6) by (rule scan_links_skip)
  also have "\<dots> = Inr (Some [Plain (run_content pre), Hyperlink u1 c1, Plain (run_content post)])"
    using c1 assms(7) split xml by (rule scan_links_hit)
  finally have "line_paragraph L line
                = Inr [Plain (run_content pre), Hyperlink u1 c1, Plain (run_content post)]"
    by (simp add: line_paragraph_def)
  with nth have "doc ! i = [Plain (run_content pre), Hyperlink u1 c1, Plain (run_content post)]"
    by simp
  with doc cat show ?thesis by blast
qed

text \<open>
  In the line \<open>b a\<close> the text \<open>b\<close> comes first, and the entry \<open>a\<close>, which is before \<open>b\<close>
  in the table, is the one hyperlinked.
\<close>

theorem earlier_entry_wins_witness:
  "[] \<notin> fst ` set ([(ascii ''z'', ascii ''u0'')]
                    @ (ascii ''a'', ascii ''u1'') # [(ascii ''b'', ascii ''u2'')])
   \<and> list_all xml_char (ascii ''b a'')
   \<and> 0 < length (split_pieces [10] (ascii ''b a''))
   \<and> split_pieces [10] (ascii ''b a'') ! 0 = ascii ''b a''
   \<and> \<not> contains (ascii ''z'') (ascii ''b a'')
   \<and> contains (ascii ''a'') (ascii ''b a'')
   \<and> (ascii ''b'', ascii ''u2'') \<in> set [(ascii ''b'', ascii ''u2'')]
   \<and> contains (ascii ''b'') (ascii ''b a'')
   \<and> length (split_pieces (ascii ''a'') (ascii ''b a'')) = 2
   \<and> (\<exists>doc pre post.
         create_hyperlinked_docx (ascii ''b a'')
           ([(ascii ''z'', ascii ''u0'')]
            @ (ascii ''a'', ascii ''u1'') # [(ascii ''b'', ascii ''u2'')]) = Inr doc
         \<and> doc ! 0 = [Plain (run_content pre), Hyperlink (ascii ''u1'') (ascii ''a''),
                       Plain (run_content post)]
         \<and> pre @ ascii ''a'' @ post = ascii ''b a'')"
proof -
  have h1: "[] \<notin> fst ` set ([(ascii ''z'', ascii ''u0'')]
                    @ (ascii ''a'', ascii ''u1'') # [(ascii ''b'', ascii ''u2'')])"
    by (simp add: ascii_def)
  have hx: "list_all xml_char (ascii ''b a'')"
    by (simp add: ascii_def xml_char_def)
  have h2: "0 < length (split_pieces [10] (ascii ''b a''))"
    by simp
  have h3: "split_pieces [10] (ascii ''b a'') ! 0 = ascii ''b a''"
    by (simp add: ascii_def)
  have z: "\<not> contains (ascii ''z'') (ascii ''b a'')"
    by (simp add: ascii_def)
  then have h5: "\<forall>(c, u) \<in> set [(ascii ''z'', ascii ''u0'')]. \<not> contains c (ascii ''b a'')"
    by simp
  have h6: "contains (ascii ''a'') (ascii ''b a'')"
    by (simp add: ascii_def)
  have h7: "(ascii ''b'', ascii ''u2'') \<in> set [(ascii ''b'', ascii ''u2'')]"
    by simp
  have h8: "contains (ascii ''b'') (ascii ''b a'')"
    by (simp add: ascii_def)
  have h9: "length (split_pieces (ascii ''a'') (ascii ''b a'')) = 2"
    by (simp add: ascii_def)
  show ?thesis
    by (intro conjI h1 hx h2 h3 z h6 h7 h8 h9
        earlier_entry_wins [OF h1 hx h2 h3 refl h5 h6 h7 h8 h9])
qed

section \<open>Properties of the splice\<close>

lemma NOTES_MARKER_nonempty: "NOTES_MARKER \<noteq> []"
  by (simp add: NOTES_MARKER_def ascii_def)

lemma splice_intro_noop_markers:
  "\<not> contains INTRO_MARKER r \<or> \<not> contains NOTES_MARKER r \<Longrightarrow> splice_intro T r = Inr T"
  by (auto simp: splice_intro_def)

text \<open>With both markers in the response, neither \<open>split\<close> nor the two indexings raise.\<close>

lemma splice_intro_parsed:
  assumes "contains INTRO_MARKER r" and "contains NOTES_MARKER r"
  shows "splice_intro T r =
     (if contains GREETING T \<and> str_find GREETING T < str_find SECTION_ANCHOR T
      then Inr (slice_to T (str_find GREETING T) @ GREETING @ [10, 10]
                @ strip (str_replace INTRO_MARKER [] (hd (split_pieces NOTES_MARKER r)))
                @ [10, 10] @ slice_from T (str_find SECTION_ANCHOR T))
      else Inr T)"
proof -
  have "2 \<le> length (split_pieces NOTES_MARKER r)"
    using assms(2) NOTES_MARKER_nonempty by (intro split_pieces_contains)
  moreover have "split_pieces NOTES_MARKER r ! 0 = hd (split_pieces NOTES_MARKER r)"
    by (simp add: hd_conv_nth)
  ultimately show ?thesis
    using assms NOTES_MARKER_nonempty
    by (simp add: splice_intro_def str_split_def list_get_def Let_def)
qed

lemma splice_intro_total: "\<exists>T'. splice_intro T r = Inr T'"
proof (cases "contains INTRO_MARKER r \<and> contains NOTES_MARKER r")
  case True
  then show ?thesis by (simp add: splice_intro_parsed)
next
  case False
  then show ?thesis using splice_intro_noop_markers [of r T] by auto
qed

text \<open>
  Claim C6. When the AI response contains both the \<open>INTRO:\<close> and \<open>IMPORTANT_NOTES:\<close>
  markers, the template contains \<open>Hi!\<close>, and the first occurrence of the section anchor
  (at \<open>j\<close>) lies strictly after the first occurrence of \<open>Hi!\<close> (at \<open>i\<close>), the spliced
  template is: the template before \<open>Hi!\<close>, then \<open>Hi!\<close>, a blank line, the intro text,
  a blank line, and the template from the anchor onward unchanged. The intro text is the
  response before the first \<open>IMPORTANT_NOTES:\<close> (at \<open>k\<close>) with \<open>INTRO:\<close> removed,
  stripped of surrounding whitespace.
\<close>

theorem splice_replaces_intro:
  assumes "contains INTRO_MARKER r" and "contains NOTES_MARKER r" and "first_at NOTES_MARKER r k"
    and "contains GREETING T" and "first_at GREETING T i"
    and "first_at SECTION_ANCHOR T j" and "i < j"
  shows "splice_intro T r =
     Inr (take i T @ GREETING @ [10, 10]
          @ strip (str_replace INTRO_MARKER [] (take k r))
          @ [10, 10] @ drop j T)"
proof -
  have "str_find GREETING T = int i" "str_find SECTION_ANCHOR T = int j"
    using assms(5,6) by (simp_all add: str_find_first_at)
  moreover have "hd (split_pieces NOTES_MARKER r) = take k r"
    using NOTES_MARKER_nonempty assms(3) by (rule split_pieces_hd)
  ultimately show ?thesis
    using assms(1,2,4,7) by (simp add: splice_intro_parsed slice_to_def slice_from_def)
qed

text \<open>
  The scenario of the specification: the response
  \<open>"INTRO:\nHello there.\n\nIMPORTANT_NOTES:\n- note one"\<close> and the template
  \<open>"T\nHi!\n\nold\n\n<anchor> Important:"\<close>.
\<close>

theorem splice_replaces_intro_witness:
  "contains INTRO_MARKER
     (ascii ''INTRO:'' @ [10] @ ascii ''Hello there.'' @ [10, 10] @ ascii ''IMPORTANT_NOTES:''
      @ [10] @ ascii ''- note one'')
   \<and> contains NOTES_MARKER
     (ascii ''INTRO:'' @ [10] @ ascii ''Hello there.'' @ [10, 10] @ ascii ''IMPORTANT_NOTES:''
      @ [10] @ ascii ''- note one'')
   \<and> first_at NOTES_MARKER
     (ascii ''INTRO:'' @ [10] @ ascii ''Hello there.'' @ [10, 10] @ ascii ''IMPORTANT_NOTES:''
      @ [10] @ ascii ''- note one'') 21
   \<and> contains GREETING
     (ascii ''T'' @ [10] @ ascii ''Hi!'' @ [10, 10] @ ascii ''old'' @ [10, 10]
      @ SECTION_ANCHOR @ ascii '' Important:'')
   \<and> first_at GREETING
     (ascii ''T'' @ [10] @ ascii ''Hi!'' @ [10, 10] @ ascii ''old'' @ [10, 10]
      @ SECTION_ANCHOR @ ascii '' Important:'') 2
   \<and> first_at SECTION_ANCHOR
     (ascii ''T'' @ [10] @ ascii ''Hi!'' @ [10, 10] @ ascii ''old'' @ [10, 10]
      @ SECTION_ANCHOR @ ascii '' Important:'') 12
   \<and> (2::nat) < 12
   \<and> splice_intro
       (ascii ''T'' @ [10] @ ascii ''Hi!'' @ [10, 10] @ ascii ''old'' @ [10, 10]
        @ SECTION_ANCHOR @ ascii '' Important:'')
       (ascii ''INTRO:'' @ [10] @ ascii ''Hello there.'' @ [10, 10] @ ascii ''IMPORTANT_NOTES:''
        @ [10] @ ascii ''- note one'')
     = Inr (ascii ''T'' @ [10] @ ascii ''Hi!'' @ [10, 10] @ ascii ''Hello there.'' @ [10, 10]
            @ SECTION_ANCHOR @ ascii '' Important:'')"
  (is "?h1 \<and> ?h2 \<and> ?h3 \<and> ?h4 \<and> ?h5 \<and> ?h6 \<and> ?h7 \<and> ?c")
proof -
  have h1: ?h1 and h2: ?h2 and h4: ?h4
    by (simp_all add: INTRO_MARKER_def NOTES_MARKER_def GREETING_def SECTION_ANCHOR_def ascii_def)
  have h3: ?h3
    unfolding str_find_first_at [symmetric] by (simp add: NOTES_MARKER_def ascii_def)
  have h5: ?h5
    unfolding str_find_first_at [symmetric]
    by (simp add: GREETING_def SECTION_ANCHOR_def ascii_def)
  have h6: ?h6
    unfolding str_find_first_at [symmetric]
    by (simp add: SECTION_ANCHOR_def ascii_def)
  have h7: ?h7 by simp
  have c: ?c
    using splice_replaces_intro [OF h1 h2 h3 h4 h5 h6 h7]
    by (simp add: INTRO_MARKER_def GREETING_def SECTION_ANCHOR_def ascii_def
          str_replace_def strip_def is_space_def)
  show ?thesis
    by (intro conjI h1 h2 h3 h4 h5 h6 h7 c)
qed

text \<open>
  Claim C7. The splice returns the template unchanged whenever the AI response lacks the
  \<open>INTRO\<close> marker (with or without its colon) or the \<open>IMPORTANT_NOTES\<close> marker (with or
  without its colon), or the template lacks \<open>Hi!\<close>, or the section anchor is absent
  from the template or its first occurrence is at or before the first occurrence of
  \<open>Hi!\<close>.
\<close>

theorem splice_noop:
  assumes "\<not> contains INTRO_MARKER r \<or> \<not> contains (ascii ''INTRO'') r
         \<or> \<not> contains NOTES_MARKER r \<or> \<not> contains (ascii ''IMPORTANT_NOTES'') r
         \<or> \<not> contains GREETING T \<or> \<not> contains SECTION_ANCHOR T
         \<or> (\<exists>i j. first_at GREETING T i \<and> first_at SECTION_ANCHOR T j \<and> j \<le> i)"
  shows "splice_intro T r = Inr T"
proof (cases "contains INTRO_MARKER r \<and> contains NOTES_MARKER r")
  case False
  then show ?thesis using splice_intro_noop_markers [of r T] by auto
next
  case True
  have "contains (ascii ''INTRO'') r"
    using True contains_prefix_closed [of "ascii ''INTRO''" "ascii '':''" r]
    by (simp add: INTRO_MARKER_def ascii_def)
  moreover have "contains (ascii ''IMPORTANT_NOTES'') r"
    using True contains_prefix_closed [of "ascii ''IMPORTANT_NOTES''" "ascii '':''" r]
    by (simp add: NOTES_MARKER_def ascii_def)
  ultimately have rest: "\<not> contains GREETING T \<or> \<not> contains SECTION_ANCHOR T
         \<or> (\<exists>i j. first_at GREETING T i \<and> first_at SECTION_ANCHOR T j \<and> j \<le> i)"
    using assms True by auto
  have "\<not> (contains GREETING T \<and> str_find GREETING T < str_find SECTION_ANCHOR T)"
  proof
    assume a: "contains GREETING T \<and> str_find GREETING T < str_find SECTION_ANCHOR T"
    then have "str_find GREETING T \<noteq> - 1" by (simp add: str_find_absent)
    with str_find_ge [of GREETING T] have ge: "0 \<le> str_find GREETING T" by linarith
    with a have "str_find SECTION_ANCHOR T \<noteq> - 1" by linarith
    then have anchor: "contains SECTION_ANCHOR T" by (simp add: str_find_absent)
    with rest a obtain i j
      where ij: "first_at GREETING T i" "first_at SECTION_ANCHOR T j" "j \<le> i"
      by auto
    then have "str_find GREETING T = int i" "str_find SECTION_ANCHOR T = int j"
      by (simp_all add: str_find_first_at)
    with a ij(3) show False by simp
  qed
  moreover have "splice_intro T r =
     (if contains GREETING T \<and> str_find GREETING T < str_find SECTION_ANCHOR T
      then Inr (slice_to T (str_find GREETING T) @ GREETING @ [10, 10]
                @ strip (str_replace INTRO_MARKER [] (hd (split_pieces NOTES_MARKER r)))
                @ [10, 10] @ slice_from T (str_find SECTION_ANCHOR T))
      else Inr T)"
    using True by (intro splice_intro_parsed) auto
  ultimately show ?thesis by (simp only: if_False)
qed

text \<open>
  A response without \<open>IMPORTANT_NOTES\<close>; a template without \<open>Hi!\<close> and a well-formed
  response; a template whose anchor comes before \<open>Hi!\<close>.
\<close>

theorem splice_noop_witness:
  "\<not> contains NOTES_MARKER (ascii ''INTRO: Hello'')
   \<and> splice_intro (ascii ''Hi!'' @ [10] @ SECTION_ANCHOR) (ascii ''INTRO: Hello'')
       = Inr (ascii ''Hi!'' @ [10] @ SECTION_ANCHOR)
   \<and> \<not> contains GREETING (ascii ''Hello'' @ [10] @ SECTION_ANCHOR)
   \<and> splice_intro (ascii ''Hello'' @ [10] @ SECTION_ANCHOR)
         (ascii ''INTRO: a IMPORTANT_NOTES: b'')
       = Inr (ascii ''Hello'' @ [10] @ SECTION_ANCHOR)
   \<and> first_at GREETING (SECTION_ANCHOR @ ascii '' Hi!'') 3
   \<and> first_at SECTION_ANCHOR (SECTION_ANCHOR @ ascii '' Hi!'') 0
   \<and> splice_intro (SECTION_ANCHOR @ ascii '' Hi!'') (ascii ''INTRO: a IMPORTANT_NOTES: b'')
       = Inr (SECTION_ANCHOR @ ascii '' Hi!'')"
  (is "?a1 \<and> ?c1 \<and> ?a2 \<and> ?c2 \<and> ?a3 \<and> ?b3 \<and> ?c3")
proof -
  have a1: ?a1
    by (simp add: NOTES_MARKER_def ascii_def)
  have a2: ?a2
    by (simp add: GREETING_def SECTION_ANCHOR_def ascii_def)
  have a3: ?a3
    unfolding str_find_first_at [symmetric]
    by (simp add: GREETING_def SECTION_ANCHOR_def ascii_def)
  have b3: ?b3
    unfolding str_find_first_at [symmetric]
    by (simp add: SECTION_ANCHOR_def ascii_def)
  have c1: ?c1
    by (rule splice_noop) (use a1 in blast)
  have c2: ?c2
    by (rule splice_noop) (use a2 in blast)
  have "\<exists>i j. first_at GREETING (SECTION_ANCHOR @ ascii '' Hi!'') i
           \<and> first_at SECTION_ANCHOR (SECTION_ANCHOR @ ascii '' Hi!'') j \<and> j \<le> i"
    using a3 b3 by (intro exI [of _ 3] exI [of _ 0]) simp
  then have c3: ?c3
    by (intro splice_noop) blast
  show ?thesis
    by (intro conjI a1 a2 a3 b3 c1 c2 c3)
qed

section \<open>Properties of the generate handler\<close>

lemma dict_set_map_fst: "set (map fst (dict_set k v d)) = insert k (set (map fst d))"
  by (induction k v d rule: dict_set.induct) auto

lemma dict_set_keys: "fst ` set (dict_set k v d) = insert k (fst ` set d)"
  using dict_set_map_fst [of k v d] by simp

lemma dict_set_values: "snd ` set (dict_set k v d) \<subseteq> insert v (snd ` set d)"
  by (induction k v d rule: dict_set.induct) auto

lemma foldl_dict_set_keys:
  "fst ` set (foldl (\<lambda>d l. dict_set (category l) (url l) d) d0 links)
   = fst ` set d0 \<union> category ` set links"
  by (induction links arbitrary: d0) (auto simp: dict_set_keys)

lemma foldl_dict_set_values:
  "snd ` set (foldl (\<lambda>d l. dict_set (category l) (url l) d) d0 links)
   \<subseteq> snd ` set d0 \<union> url ` set links"
proof (induction links arbitrary: d0)
  case Nil
  then show ?case by simp
next
  case (Cons l links)
  have "snd ` set (foldl (\<lambda>d l. dict_set (category l) (url l) d)
                    (dict_set (category l) (url l) d0) links)
        \<subseteq> snd ` set (dict_set (category l) (url l) d0) \<union> url ` set links"
    by (rule Cons.IH)
  also have "\<dots> \<subseteq> insert (url l) (snd ` set d0) \<union> url ` set links"
    using dict_set_values [of "category l" "url l" d0] by blast
  finally show ?case by auto
qed

text \<open>The keys of the dictionary are the texts of the link table, its values are URLs of it.\<close>

lemma links_dict_of_keys: "fst ` set (links_dict_of links) = category ` set links"
  by (simp add: links_dict_of_def foldl_dict_set_keys)

lemma links_dict_of_values: "snd ` set (links_dict_of links) \<subseteq> url ` set links"
  using foldl_dict_set_values [of "[]" links] by (simp add: links_dict_of_def)

text \<open>A document whose hyperlinks have XML-compatible targets is saved.\<close>

lemma scan_links_saves:
  assumes "\<forall>(c, u) \<in> set L. list_all xml_char u" and "scan_links L line = Inr (Some runs)"
  shows "list_all run_saves runs"
  using assms
proof (induction L)
  case Nil
  then show ?case by simp
next
  case (Cons e L)
  obtain c u where e: "e = (c, u)" by (cases e)
  from Cons.prems(1) e have u: "list_all xml_char u" and rest: "\<forall>(c, u) \<in> set L. list_all xml_char u"
    by auto
  show ?case
  proof (cases "contains c line \<and> c \<noteq> [] \<and> length (split_pieces c line) = 2")
    case True
    with Cons.prems(2) u show ?thesis
      unfolding e
      by (auto simp: str_split_def add_run_def add_hyperlink_def split: if_splits)
  next
    case False
    with Cons.prems(2) have "scan_links L line = Inr (Some runs)"
      unfolding e by (auto simp: str_split_def split: if_splits)
    with Cons.IH rest show ?thesis by blast
  qed
qed

lemma line_paragraph_saves:
  assumes "\<forall>(c, u) \<in> set L. list_all xml_char u" and "line_paragraph L line = Inr p"
  shows "list_all run_saves p"
proof (cases "scan_links L line")
  case (Inl e)
  with assms(2) show ?thesis by (simp add: line_paragraph_def)
next
  case (Inr r)
  show ?thesis
  proof (cases r)
    case None
    with Inr assms(2) show ?thesis
      by (auto simp: line_paragraph_def add_run_def split: if_splits)
  next
    case (Some runs)
    with Inr assms(2) have "p = runs" by (simp add: line_paragraph_def)
    with scan_links_saves [OF assms(1)] Inr Some show ?thesis by simp
  qed
qed

lemma create_hyperlinked_docx_saves:
  assumes "\<forall>(c, u) \<in> set L. list_all xml_char u" and "create_hyperlinked_docx T L = Inr doc"
  shows "save_document doc = Inr ()"
proof -
  from assms(2) have all: "list_all2 (\<lambda>l p. line_paragraph L l = Inr p) (split_pieces [10] T) doc"
    by (simp add: create_hyperlinked_docx_Inr)
  have "list_all run_saves p" if "p \<in> set doc" for p
  proof -
    from that obtain j where "j < length doc" "doc ! j = p"
      by (auto simp: in_set_conv_nth)
    with all have "line_paragraph L (split_pieces [10] T ! j) = Inr p"
      using list_all2_nthD2 by fastforce
    with assms(1) show ?thesis by (rule line_paragraph_saves)
  qed
  then show ?thesis by (simp add: save_document_def list_all_iff)
qed

lemma build_document_generated:
  assumes "[] \<notin> category ` set links" and "list_all xml_char T"
    and "list_all (\<lambda>l. list_all xml_char (url l)) links"
  shows "\<exists>doc. create_hyperlinked_docx T (links_dict_of links) = Inr doc
           \<and> build_document T links = Generated doc"
proof -
  have "[] \<notin> fst ` set (links_dict_of links)"
    using assms(1) by (simp add: links_dict_of_keys)
  then obtain doc where doc: "create_hyperlinked_docx T (links_dict_of links) = Inr doc"
    using create_hyperlinked_docx_total assms(2) by blast
  have "\<forall>(c, u) \<in> set (links_dict_of links). list_all xml_char u"
    using links_dict_of_values [of links] assms(3) by (fastforce simp: list_all_iff)
  then have "save_document doc = Inr ()"
    using doc by (rule create_hyperlinked_docx_saves)
  with doc show ?thesis by (simp add: build_document_def)
qed

text \<open>The failures of the call give \<open>None\<close>, which is falsy.\<close>

lemma call_openrouter_failure:
  "post k m p = TransportError
   \<or> (\<exists>st c. post k m p = HttpResponse st c \<and> (400 \<le> st \<and> st < 600 \<or> c = None))
   \<Longrightarrow> call_openrouter post k m p = PyNone"
  by (auto simp: call_openrouter_def)

lemma customize_failed:
  "generate_ai_content post (api_key f) (MODELS (model_choice f)) (template_text f)
     (ai_instructions f) = PyNone \<Longrightarrow> customize post f = Inr (template_text f)"
  by (simp add: customize_def)

text \<open>
  Claim C8, as stated, fails. \<open>raise_for_status\<close> lets the status 302 pass, which is not
  a success status: the response is then spliced in, and the document is built from the
  modified template. And when the call fails on a template with a control character,
  \<open>add_run\<close> raises \<open>ValueError\<close> and there is no document.
\<close>

theorem status_302_counterexample:
  "generate (\<lambda>k m p. HttpResponse 302 (Some (PyStr (ascii ''INTRO: new IMPORTANT_NOTES: n''))))
     \<lparr>template_text = ascii ''Hi!'' @ [10] @ ascii ''old'' @ [10] @ SECTION_ANCHOR @ ascii '' b'',
       api_key = ascii ''k'', model_choice = ClaudeSonnet4, ai_instructions = ascii ''i'',
       use_ai = True\<rparr>
     [\<lparr>category = ascii ''b'', url = ascii ''u''\<rparr>]
   = Generated [[Plain [TextElement (ascii ''Hi!'')]], [Plain []],
                [Plain [TextElement (ascii ''new'')]], [Plain []],
                [Plain [TextElement (SECTION_ANCHOR @ ascii '' '')],
                 Hyperlink (ascii ''u'') (ascii ''b''), Plain []]]
   \<and> build_document (ascii ''Hi!'' @ [10] @ ascii ''old'' @ [10] @ SECTION_ANCHOR @ ascii '' b'')
       [\<lparr>category = ascii ''b'', url = ascii ''u''\<rparr>]
   = Generated [[Plain [TextElement (ascii ''Hi!'')]], [Plain [TextElement (ascii ''old'')]],
                [Plain [TextElement (SECTION_ANCHOR @ ascii '' '')],
                 Hyperlink (ascii ''u'') (ascii ''b''), Plain []]]
   \<and> generate (\<lambda>k m p. TransportError)
       \<lparr>template_text = [120, 11, 98], api_key = ascii ''k'', model_choice = ClaudeSonnet4,
         ai_instructions = ascii ''i'', use_ai = True\<rparr>
       [\<lparr>category = ascii ''b'', url = ascii ''u''\<rparr>]
     = Raised ValueError"
  by (simp add: generate_def customize_def generate_ai_content_def call_openrouter_def
      splice_intro_def INTRO_MARKER_def NOTES_MARKER_def GREETING_def SECTION_ANCHOR_def
      str_split_def list_get_def str_replace_def strip_def is_space_def
      slice_to_def slice_from_def build_document_def save_document_def
      create_hyperlinked_docx_def links_dict_of_def line_paragraph_def add_run_def
      add_hyperlink_def run_content_def flush_def xml_char_def ascii_def)

text \<open>
  Claim C8, amended. When the inputs pass the validation, AI customization is enabled
  and the AI call ends in a failure result (a transport error, an HTTP status from 400
  to 599, which are those that \<open>raise_for_status\<close> rejects, or a response body without
  the expected content), the handler goes on exactly as from the original, unmodified
  template text; when moreover no link text is empty and the template and the URLs are
  XML compatible, it builds the document, from the original template.
\<close>

theorem ai_failure_uses_original_template:
  assumes "template_text f \<noteq> []" and "links \<noteq> []" and "use_ai f"
    and "api_key f \<noteq> []" and "ai_instructions f \<noteq> []"
    and "reply = post (api_key f) (MODELS (model_choice f))
                   (compose_prompt (template_text f) (ai_instructions f))"
    and "reply = TransportError
         \<or> (\<exists>st c. reply = HttpResponse st c \<and> (400 \<le> st \<and> st < 600 \<or> c = None))"
  shows "generate post f links = build_document (template_text f) links
       \<and> ([] \<notin> category ` set links \<and> list_all xml_char (template_text f)
            \<and> list_all (\<lambda>l. list_all xml_char (url l)) links
          \<longrightarrow> (\<exists>doc. create_hyperlinked_docx (template_text f) (links_dict_of links) = Inr doc
                  \<and> generate post f links = Generated doc))"
proof -
  have "generate_ai_content post (api_key f) (MODELS (model_choice f)) (template_text f)
          (ai_instructions f) = PyNone"
    unfolding generate_ai_content_def using assms(6,7) by (intro call_openrouter_failure) simp
  then have cust: "customize post f = Inr (template_text f)"
    by (rule customize_failed)
  then have eq: "generate post f links = build_document (template_text f) links"
    using assms(1-5) by (simp add: generate_def)
  have "\<exists>doc. create_hyperlinked_docx (template_text f) (links_dict_of links) = Inr doc
              \<and> generate post f links = Generated doc"
    if "[] \<notin> category ` set links \<and> list_all xml_char (template_text f)
            \<and> list_all (\<lambda>l. list_all xml_char (url l)) links"
    using that build_document_generated [of links "template_text f"] eq by simp
  then have "[] \<notin> category ` set links \<and> list_all xml_char (template_text f)
            \<and> list_all (\<lambda>l. list_all xml_char (url l)) links
          \<longrightarrow> (\<exists>doc. create_hyperlinked_docx (template_text f) (links_dict_of links) = Inr doc
                  \<and> generate post f links = Generated doc)"
    by (rule impI)
  with eq show ?thesis by (rule conjI)
qed

text \<open>
  A network that answers every request with status 500, for the template \<open>x b\<close> and the
  link \<open>b\<close>.
\<close>

theorem ai_failure_uses_original_template_witness:
  "template_text \<lparr>template_text = ascii ''x b'', api_key = ascii ''k'',
       model_choice = ClaudeSonnet4, ai_instructions = ascii ''i'', use_ai = True\<rparr> \<noteq> []
   \<and> [\<lparr>category = ascii ''b'', url = ascii ''u''\<rparr>] \<noteq> []
   \<and> use_ai \<lparr>template_text = ascii ''x b'', api_key = ascii ''k'',
       model_choice = ClaudeSonnet4, ai_instructions = ascii ''i'', use_ai = True\<rparr>
   \<and> api_key \<lparr>template_text = ascii ''x b'', api_key = ascii ''k'',
       model_choice = ClaudeSonnet4, ai_instructions = ascii ''i'', use_ai = True\<rparr> \<noteq> []
   \<and> ai_instructions \<lparr>template_text = ascii ''x b'', api_key = ascii ''k'',
       model_choice = ClaudeSonnet4, ai_instructions = ascii ''i'', use_ai = True\<rparr> \<noteq> []
   \<and> [] \<notin> category ` set [\<lparr>category = ascii ''b'', url = ascii ''u''\<rparr>]
   \<and> list_all xml_char (ascii ''x b'')
   \<and> list_all (\<lambda>l. list_all xml_char (url l)) [\<lparr>category = ascii ''b'', url = ascii ''u''\<rparr>]
   \<and> generate (\<lambda>k m p. HttpResponse 500 (Some (PyStr (ascii ''INTRO: a IMPORTANT_NOTES: b''))))
       \<lparr>template_text = ascii ''x b'', api_key = ascii ''k'',
         model_choice = ClaudeSonnet4, ai_instructions = ascii ''i'', use_ai = True\<rparr>
       [\<lparr>category = ascii ''b'', url = ascii ''u''\<rparr>]
     = build_document (ascii ''x b'') [\<lparr>category = ascii ''b'', url = ascii ''u''\<rparr>]
   \<and> generate (\<lambda>k m p. HttpResponse 500 (Some (PyStr (ascii ''INTRO: a IMPORTANT_NOTES: b''))))
       \<lparr>template_text = ascii ''x b'', api_key = ascii ''k'',
         model_choice = ClaudeSonnet4, ai_instructions = ascii ''i'', use_ai = True\<rparr>
       [\<lparr>category = ascii ''b'', url = ascii ''u''\<rparr>]
     = Generated [[Plain [TextElement (ascii ''x '')], Hyperlink (ascii ''u'') (ascii ''b''),
                   Plain []]]"
  (is "?h1 \<and> ?h2 \<and> ?h3 \<and> ?h4 \<and> ?h5 \<and> ?h6 \<and> ?h7 \<and> ?h8 \<and> ?c1 \<and> ?c2")
proof -
  let ?f = "\<lparr>template_text = ascii ''x b'', api_key = ascii ''k'',
       model_choice = ClaudeSonnet4, ai_instructions = ascii ''i'', use_ai = True\<rparr>"
  let ?links = "[\<lparr>category = ascii ''b'', url = ascii ''u''\<rparr>]"
  let ?reply = "HttpResponse 500 (Some (PyStr (ascii ''INTRO: a IMPORTANT_NOTES: b'')))"
  have h1: ?h1 and h4: ?h4 and h5: ?h5 and h6: ?h6
    by (simp_all add: ascii_def)
  have h2: ?h2 and h3: ?h3
    by simp_all
  have h7: ?h7 and h8: ?h8
    by (simp_all add: ascii_def xml_char_def)
  have r: "?reply = TransportError
         \<or> (\<exists>st c. ?reply = HttpResponse st c \<and> (400 \<le> st \<and> st < 600 \<or> c = None))"
    by simp
  note t = ai_failure_uses_original_template [of ?f ?links ?reply "\<lambda>k m p. ?reply",
      OF h1 h2 h3 h4 h5 refl r]
  have c1: ?c1
    using t [THEN conjunct1] by simp
  have d: "create_hyperlinked_docx (ascii ''x b'') (links_dict_of ?links)
     = Inr [[Plain [TextElement (ascii ''x '')], Hyperlink (ascii ''u'') (ascii ''b''), Plain []]]"
    by (simp add: create_hyperlinked_docx_def links_dict_of_def str_split_def
          line_paragraph_def add_run_def add_hyperlink_def run_content_def flush_def
          xml_char_def ascii_def)
  have "[] \<notin> category ` set ?links \<and> list_all xml_char (template_text ?f)
            \<and> list_all (\<lambda>l. list_all xml_char (url l)) ?links"
    using h6 h7 h8 by simp
  with t [THEN conjunct2] obtain doc
    where "create_hyperlinked_docx (template_text ?f) (links_dict_of ?links) = Inr doc"
      and g: "generate (\<lambda>k m p. ?reply) ?f ?links = Generated doc"
    by blast
  with d have "doc = [[Plain [TextElement (ascii ''x '')], Hyperlink (ascii ''u'') (ascii ''b''),
                   Plain []]]"
    by simp
  with g have c2: ?c2 by simp
  show ?thesis
    by (intro conjI h1 h2 h3 h4 h5 h6 h7 h8 c1 c2)
qed

text \<open>
  Claim C9. Pressing generate ends with a validation message and no document whenever
  the template is empty, or the link table is empty, or AI customization is enabled and
  the credential is empty, or AI customization is enabled and the AI instructions are
  empty; a document is built only when none of these conditions holds.
\<close>

theorem validation_aborts:
  "((template_text f = [] \<or> links = [] \<or> (use_ai f \<and> api_key f = [])
      \<or> (use_ai f \<and> ai_instructions f = []))
     \<longrightarrow> (\<exists>m. generate post f links = Rejected m)
         \<and> (\<forall>doc. generate post f links \<noteq> Generated doc))
   \<and> ((\<exists>doc. generate post f links = Generated doc)
     \<longrightarrow> template_text f \<noteq> [] \<and> links \<noteq> [] \<and> \<not> (use_ai f \<and> api_key f = [])
         \<and> \<not> (use_ai f \<and> ai_instructions f = []))"
  by (auto simp: generate_def split: sum.splits)

text \<open>
  AI enabled without a credential: rejected. The same form with the AI disabled: the
  document is built.
\<close>

theorem validation_aborts_witness:
  "use_ai \<lparr>template_text = ascii ''x b'', api_key = [], model_choice = ClaudeOpus4,
       ai_instructions = ascii ''i'', use_ai = True\<rparr>
   \<and> api_key \<lparr>template_text = ascii ''x b'', api_key = [], model_choice = ClaudeOpus4,
       ai_instructions = ascii ''i'', use_ai = True\<rparr> = []
   \<and> (\<exists>m. generate (\<lambda>k m p. TransportError)
            \<lparr>template_text = ascii ''x b'', api_key = [], model_choice = ClaudeOpus4,
              ai_instructions = ascii ''i'', use_ai = True\<rparr>
            [\<lparr>category = ascii ''b'', url = ascii ''u''\<rparr>] = Rejected m)
   \<and> generate (\<lambda>k m p. TransportError)
        \<lparr>template_text = ascii ''x b'', api_key = [], model_choice = ClaudeOpus4,
          ai_instructions = ascii ''i'', use_ai = False\<rparr>
        [\<lparr>category = ascii ''b'', url = ascii ''u''\<rparr>]
      = Generated [[Plain [TextElement (ascii ''x '')], Hyperlink (ascii ''u'') (ascii ''b''),
                    Plain []]]
   \<and> template_text \<lparr>template_text = ascii ''x b'', api_key = [], model_choice = ClaudeOpus4,
          ai_instructions = ascii ''i'', use_ai = False\<rparr> \<noteq> []
   \<and> \<not> use_ai \<lparr>template_text = ascii ''x b'', api_key = [], model_choice = ClaudeOpus4,
          ai_instructions = ascii ''i'', use_ai = False\<rparr>"
  (is "?a1 \<and> ?a2 \<and> ?r \<and> ?g \<and> ?b1 \<and> ?b2")
proof -
  have a1: ?a1 and a2: ?a2
    by simp_all
  have r: ?r
    using validation_aborts [of
        "\<lparr>template_text = ascii ''x b'', api_key = [], model_choice = ClaudeOpus4,
          ai_instructions = ascii ''i'', use_ai = True\<rparr>"
        "[\<lparr>category = ascii ''b'', url = ascii ''u''\<rparr>]" "\<lambda>k m p. TransportError"]
    by simp
  have g: ?g
    by (simp add: generate_def customize_def build_document_def save_document_def
          create_hyperlinked_docx_def links_dict_of_def str_split_def line_paragraph_def
          add_run_def add_hyperlink_def run_content_def flush_def xml_char_def ascii_def)
  then have "\<exists>doc. generate (\<lambda>k m p. TransportError)
        \<lparr>template_text = ascii ''x b'', api_key = [], model_choice = ClaudeOpus4,
          ai_instructions = ascii ''i'', use_ai = False\<rparr>
        [\<lparr>category = ascii ''b'', url = ascii ''u''\<rparr>] = Generated doc"
    by (rule exI)
  with validation_aborts [of
        "\<lparr>template_text = ascii ''x b'', api_key = [], model_choice = ClaudeOpus4,
          ai_instructions = ascii ''i'', use_ai = False\<rparr>"
        "[\<lparr>category = ascii ''b'', url = ascii ''u''\<rparr>]" "\<lambda>k m p. TransportError"]
  have b1: ?b1 and b2: ?b2
    by simp_all
  show ?thesis
    by (intro conjI a1 a2 r g b1 b2)
qed

section \<open>The invariant of the link table\<close>

lemma add_link_invariant:
  "entries_nonempty links \<Longrightarrow> entries_nonempty (add_link c u links)"
  by (auto simp: add_link_def entries_nonempty_def)

lemma list_pop_invariant:
  "entries_nonempty links \<Longrightarrow> list_pop idx links = Inr links' \<Longrightarrow> entries_nonempty links'"
  by (auto simp: list_pop_def entries_nonempty_def split: if_splits
      dest!: in_set_takeD in_set_dropD)

lemma link_action_invariant:
  assumes "entries_nonempty links" and "link_action a links = Inr links'"
  shows "entries_nonempty links'"
proof (cases a)
  case (AddLink c u)
  with assms show ?thesis using add_link_invariant [of links c u] by auto
next
  case (DeleteLink idx)
  with assms show ?thesis using list_pop_invariant [of links idx links'] by simp
next
  case ClearAllLinks
  with assms show ?thesis by (auto simp: entries_nonempty_def)
qed

lemma run_actions_invariant:
  "entries_nonempty links \<Longrightarrow> run_actions acts links = Inr links' \<Longrightarrow> entries_nonempty links'"
proof (induction acts arbitrary: links)
  case Nil
  then show ?case by simp
next
  case (Cons a acts)
  from Cons.prems(2) obtain mid where mid: "link_action a links = Inr mid"
    and rest: "run_actions acts mid = Inr links'"
    by (auto split: sum.splits)
  from Cons.prems(1) mid have "entries_nonempty mid"
    by (rule link_action_invariant)
  then show ?case using rest by (rule Cons.IH)
qed

text \<open>
  Claim C10. Every entry of the session link table has a non-empty link text and a
  non-empty URL, whatever sequence of add, delete and clear-all actions led to it from
  the empty table: adding appends nothing when a field is empty, deleting and clearing
  keep the invariant. So no key of the dictionary given to the builder is the empty
  string, on which \<open>split\<close> raises.
\<close>

theorem link_table_entries_nonempty:
  assumes "run_actions acts [] = Inr links"
  shows "entries_nonempty links
       \<and> (\<forall>c u. c = [] \<or> u = [] \<longrightarrow> add_link c u links = links)
       \<and> (\<forall>idx links'. list_pop idx links = Inr links' \<longrightarrow> entries_nonempty links')
       \<and> [] \<notin> fst ` set (links_dict_of links)
       \<and> (\<forall>line :: pystr. str_split [] line = Inl ValueError)"
proof -
  have inv: "entries_nonempty links"
    using run_actions_invariant [of "[]" acts links] assms by (simp add: entries_nonempty_def)
  then have keys: "[] \<notin> fst ` set (links_dict_of links)"
    by (auto simp: links_dict_of_keys entries_nonempty_def)
  have "add_link c u links = links" if "c = [] \<or> u = []" for c u
    using that by (auto simp: add_link_def)
  moreover have "entries_nonempty links'" if "list_pop idx links = Inr links'" for idx links'
    using inv that by (rule list_pop_invariant)
  moreover have "str_split [] line = Inl ValueError" for line :: pystr
    by (simp add: str_split_def)
  ultimately show ?thesis using inv keys by blast
qed

text \<open>
  Adding \<open>a\<close>, trying to add an entry with an empty text, adding \<open>b\<close>, then deleting
  the first entry leaves the table with the entry \<open>b\<close> alone.
\<close>

theorem link_table_entries_nonempty_witness:
  "run_actions [AddLink (ascii ''a'') (ascii ''u''), AddLink [] (ascii ''v''),
                AddLink (ascii ''b'') (ascii ''w''), DeleteLink 0] []
     = Inr [\<lparr>category = ascii ''b'', url = ascii ''w''\<rparr>]
   \<and> entries_nonempty [\<lparr>category = ascii ''b'', url = ascii ''w''\<rparr>]
   \<and> add_link [] (ascii ''v'') [\<lparr>category = ascii ''b'', url = ascii ''w''\<rparr>]
       = [\<lparr>category = ascii ''b'', url = ascii ''w''\<rparr>]
   \<and> [] \<notin> fst ` set (links_dict_of [\<lparr>category = ascii ''b'', url = ascii ''w''\<rparr>])"
proof -
  have h: "run_actions [AddLink (ascii ''a'') (ascii ''u''), AddLink [] (ascii ''v''),
                AddLink (ascii ''b'') (ascii ''w''), DeleteLink 0] []
     = Inr [\<lparr>category = ascii ''b'', url = ascii ''w''\<rparr>]"
    by (simp add: add_link_def list_pop_def ascii_def)
  from link_table_entries_nonempty [OF h] h show ?thesis
    by blast
qed

end
